theory Spec2Isabelle
  imports Main "HOL-Library.Monad_Syntax"
begin

section \<open>The id scheme\<close>

text \<open>
  \<^verbatim>\<open>VertexId\<close>, \<^verbatim>\<open>FaceId\<close> and \<^verbatim>\<open>HalfedgeId\<close> are distinct structs around one
  C++ \<^verbatim>\<open>int\<close> named \<^verbatim>\<open>id\<close>. The ids are modelled as mathematical integers: the
  arithmetic of the class (\<^verbatim>\<open>3*f.id+i\<close>, \<^verbatim>\<open>-1-e.id\<close>, \<^verbatim>\<open>e.id/3\<close>) is the
  arithmetic of \<^typ>\<open>int\<close> as long as three times the number of face slots fits a
  C++ \<^verbatim>\<open>int\<close>, which is the limit of the data structure (beyond it the C++
  expression is a signed overflow and has no defined value).
\<close>

datatype VertexId = VertexId (v_id: int)
datatype FaceId = FaceId (f_id: int)
datatype HalfedgeId = HalfedgeId (e_id: int)

text \<open>
  The two reserved values \<^verbatim>\<open>invalid_id\<close> and \<^verbatim>\<open>erased_id\<close> are declared in
  \<^verbatim>\<open>geode/mesh/ids.h\<close>, which is not among the sources. They are parameters of the
  model: every function that mentions one of them takes the pair as its first
  argument, and nothing is assumed about their values unless a theorem says so.
\<close>

record ids =
  invalid_id :: int
  erased_id :: int

text \<open>
  Modelled from the spec: the test \<^verbatim>\<open>Id::valid()\<close> of \<^verbatim>\<open>ids.h\<close> (not among the
  sources). A handle is invalid when it holds the reserved invalid value; the default
  constructors \<^verbatim>\<open>FaceId()\<close>, \<^verbatim>\<open>HalfedgeId()\<close> build that handle.
\<close>

definition id_valid :: "ids \<Rightarrow> int \<Rightarrow> bool" where
  "id_valid c i \<longleftrightarrow> i \<noteq> invalid_id c"

text \<open>C++ integer division truncates towards zero.\<close>

definition c_div :: "int \<Rightarrow> int \<Rightarrow> int" where
  "c_div a b = sgn a * sgn b * (\<bar>a\<bar> div \<bar>b\<bar>)"

section \<open>Errors\<close>

text \<open>
  The exceptions of the class as values: \<^verbatim>\<open>GEODE_ASSERT\<close> throws when its condition
  fails, a lookup in the field registry throws for a handle it does not hold, and an
  edit that would break the structure is refused with a structural violation (the
  \<^verbatim>\<open>ValueError\<close> of \<^verbatim>\<open>add_face\<close>, the exception of \<^verbatim>\<open>flip_edge\<close>), an edit of an
  id that is out of range or erased with an invalid handle.
\<close>

datatype error = AssertionError | LookupError | StructuralViolation | InvalidHandle

section \<open>Vectors, arrays and fields\<close>

text \<open>\<^verbatim>\<open>Vector<T,3>\<close> with its components \<^verbatim>\<open>x\<close>, \<^verbatim>\<open>y\<close>, \<^verbatim>\<open>z\<close> and indexing.\<close>

datatype 'a Vector3 = Vector3 (vec_x: 'a) (vec_y: 'a) (vec_z: 'a)

fun vec_nth :: "'a Vector3 \<Rightarrow> int \<Rightarrow> 'a option" where
  "vec_nth (Vector3 a b c) i =
     (if i = 0 then Some a else if i = 1 then Some b else if i = 2 then Some c else None)"


text \<open>
  Modelled from the spec: \<^verbatim>\<open>Array::valid\<close> of \<^verbatim>\<open>geode/array/Array.h\<close> (not among
  the sources), which \<^verbatim>\<open>Field::valid(Id i)\<close> calls with \<^verbatim>\<open>i.idx()\<close>: an index is
  valid when its slot is allocated, that is, inside the current range of the array.
  A read outside the range has no value in C++ (it fails the bounds assertion of a
  debug build); the model returns \<open>None\<close> there.
\<close>

definition array_valid :: "'a list \<Rightarrow> int \<Rightarrow> bool" where
  "array_valid xs i \<longleftrightarrow> 0 \<le> i \<and> i < int (length xs)"

definition array_get :: "'a list \<Rightarrow> int \<Rightarrow> 'a option" where
  "array_get xs i = (if array_valid xs i then Some (xs ! nat i) else None)"

definition array_set :: "'a list \<Rightarrow> int \<Rightarrow> 'a \<Rightarrow> 'a list option" where
  "array_set xs i w = (if array_valid xs i then Some (xs[nat i := w]) else None)"

section \<open>The topology store\<close>

text \<open>
  The structs \<^verbatim>\<open>FaceInfo\<close> and \<^verbatim>\<open>BoundaryInfo\<close> and the data members of
  \<^verbatim>\<open>TriangleTopology\<close>. Isabelle does not accept a name that ends in an underscore,
  so the members \<^verbatim>\<open>n_vertices_\<close>, \<^verbatim>\<open>faces_\<close>, ... lose theirs; the fields of
  \<^verbatim>\<open>BoundaryInfo\<close> carry the prefix \<open>b_\<close> because the class has methods of the same
  names.
\<close>

record FaceInfo =
  vertices :: "VertexId Vector3"
  neighbors :: "HalfedgeId Vector3"

record BoundaryInfo =
  b_prev :: HalfedgeId
  b_next :: HalfedgeId
  b_reverse :: HalfedgeId
  b_src :: VertexId

record TriangleTopology =
  n_vertices :: int
  n_faces :: int
  n_boundary_edges :: int
  faces :: "FaceInfo list"
  vertex_to_edge :: "HalfedgeId list"
  boundaries :: "BoundaryInfo list"
  erased_boundaries :: HalfedgeId

subsection \<open>Validity and erasure\<close>

text \<open>
  \<^verbatim>\<open>erased\<close> reads its slot without a range check; \<^verbatim>\<open>valid\<close> tests the range first
  and evaluates the right operand of \<^verbatim>\<open>&&\<close> only inside the range.
\<close>

definition erased_v :: "ids \<Rightarrow> 'z TriangleTopology_scheme \<Rightarrow> VertexId \<Rightarrow> bool option" where
  "erased_v c m v =
     do { e \<leftarrow> array_get (vertex_to_edge m) (v_id v); Some (e_id e = erased_id c) }"

definition erased_f :: "ids \<Rightarrow> 'z TriangleTopology_scheme \<Rightarrow> FaceId \<Rightarrow> bool option" where
  "erased_f c m f =
     do { I \<leftarrow> array_get (faces m) (f_id f); Some (v_id (vec_x (vertices I)) = erased_id c) }"

definition erased_e :: "ids \<Rightarrow> 'z TriangleTopology_scheme \<Rightarrow> HalfedgeId \<Rightarrow> bool option" where
  "erased_e c m e =
     (if e_id e \<ge> 0
      then do { I \<leftarrow> array_get (faces m) (c_div (e_id e) 3);
                Some (v_id (vec_x (vertices I)) = erased_id c) }
      else do { B \<leftarrow> array_get (boundaries m) (-1 - e_id e);
                Some (v_id (b_src B) = erased_id c) })"

definition valid_v :: "ids \<Rightarrow> 'z TriangleTopology_scheme \<Rightarrow> VertexId \<Rightarrow> bool" where
  "valid_v c m v \<longleftrightarrow>
     (if array_valid (vertex_to_edge m) (v_id v) then erased_v c m v = Some False else False)"

definition valid_f :: "ids \<Rightarrow> 'z TriangleTopology_scheme \<Rightarrow> FaceId \<Rightarrow> bool" where
  "valid_f c m f \<longleftrightarrow>
     (if array_valid (faces m) (f_id f) then erased_f c m f = Some False else False)"

definition valid_e :: "ids \<Rightarrow> 'z TriangleTopology_scheme \<Rightarrow> HalfedgeId \<Rightarrow> bool" where
  "valid_e c m e \<longleftrightarrow>
     (if e_id e \<ge> 0 then valid_f c m (FaceId (c_div (e_id e) 3))
      else if array_valid (boundaries m) (-1 - e_id e)
           then (case array_get (boundaries m) (-1 - e_id e) of
                   Some B \<Rightarrow> v_id (b_src B) \<noteq> erased_id c | None \<Rightarrow> False)
           else False)"

subsection \<open>Walking the mesh\<close>

text \<open>
  Every walking routine starts with \<^verbatim>\<open>assert(valid(...))\<close>. A failed assertion is
  the result \<open>None\<close>, as is a read outside an array.
\<close>

definition halfedge_v :: "ids \<Rightarrow> 'z TriangleTopology_scheme \<Rightarrow> VertexId \<Rightarrow> HalfedgeId option" where
  "halfedge_v c m v =
     (if valid_v c m v then array_get (vertex_to_edge m) (v_id v) else None)"

definition vertex :: "ids \<Rightarrow> 'z TriangleTopology_scheme \<Rightarrow> FaceId \<Rightarrow> int \<Rightarrow> VertexId option" where
  "vertex c m f i =
     (if valid_f c m f
      then do { I \<leftarrow> array_get (faces m) (f_id f); vec_nth (vertices I) i }
      else None)"

definition halfedge_f :: "ids \<Rightarrow> 'z TriangleTopology_scheme \<Rightarrow> FaceId \<Rightarrow> int \<Rightarrow> HalfedgeId option" where
  "halfedge_f c m f i =
     (if valid_f c m f \<and> 0 \<le> i \<and> i < 3 then Some (HalfedgeId (3 * f_id f + i)) else None)"

definition prev :: "ids \<Rightarrow> 'z TriangleTopology_scheme \<Rightarrow> HalfedgeId \<Rightarrow> HalfedgeId option" where
  "prev c m e =
     (if valid_e c m e
      then (if e_id e \<ge> 0
            then Some (HalfedgeId (e_id e + (if e_id e mod 3 = 0 then 2 else -1)))
            else map_option b_prev (array_get (boundaries m) (-1 - e_id e)))
      else None)"

definition "next" :: "ids \<Rightarrow> 'z TriangleTopology_scheme \<Rightarrow> HalfedgeId \<Rightarrow> HalfedgeId option" where
  "next c m e =
     (if valid_e c m e
      then (if e_id e \<ge> 0
            then Some (HalfedgeId (e_id e + (if e_id e mod 3 = 2 then -2 else 1)))
            else map_option b_next (array_get (boundaries m) (-1 - e_id e)))
      else None)"

definition reverse :: "ids \<Rightarrow> 'z TriangleTopology_scheme \<Rightarrow> HalfedgeId \<Rightarrow> HalfedgeId option" where
  "reverse c m e =
     (if valid_e c m e
      then (if e_id e \<ge> 0
            then (let f = c_div (e_id e) 3 in
                  do { I \<leftarrow> array_get (faces m) f; vec_nth (neighbors I) (e_id e - 3 * f) })
            else map_option b_reverse (array_get (boundaries m) (-1 - e_id e)))
      else None)"

definition src :: "ids \<Rightarrow> 'z TriangleTopology_scheme \<Rightarrow> HalfedgeId \<Rightarrow> VertexId option" where
  "src c m e =
     (if valid_e c m e
      then (if e_id e \<ge> 0
            then (let f = c_div (e_id e) 3 in
                  do { I \<leftarrow> array_get (faces m) f; vec_nth (vertices I) (e_id e - 3 * f) })
            else map_option b_src (array_get (boundaries m) (-1 - e_id e)))
      else None)"

definition dst :: "ids \<Rightarrow> 'z TriangleTopology_scheme \<Rightarrow> HalfedgeId \<Rightarrow> VertexId option" where
  "dst c m e =
     (if valid_e c m e
      then (if e_id e \<ge> 0
            then (let f = c_div (e_id e) 3; i = e_id e - 3 * f in
                  do { I \<leftarrow> array_get (faces m) f;
                       vec_nth (vertices I) (if i = 2 then 0 else i + 1) })
            else do { B \<leftarrow> array_get (boundaries m) (-1 - e_id e);
                      N \<leftarrow> array_get (boundaries m) (-1 - e_id (b_next B));
                      Some (b_src N) })
      else None)"

definition face :: "ids \<Rightarrow> 'z TriangleTopology_scheme \<Rightarrow> HalfedgeId \<Rightarrow> FaceId option" where
  "face c m e =
     (if valid_e c m e
      then Some (if e_id e \<ge> 0 then FaceId (c_div (e_id e) 3) else FaceId (invalid_id c))
      else None)"

definition left :: "ids \<Rightarrow> 'z TriangleTopology_scheme \<Rightarrow> HalfedgeId \<Rightarrow> HalfedgeId option" where
  "left c m e = do { p \<leftarrow> prev c m e; reverse c m p }"

definition right :: "ids \<Rightarrow> 'z TriangleTopology_scheme \<Rightarrow> HalfedgeId \<Rightarrow> HalfedgeId option" where
  "right c m e = do { r \<leftarrow> reverse c m e; next c m r }"

subsection \<open>Boundary tests\<close>

definition is_boundary_e :: "ids \<Rightarrow> 'z TriangleTopology_scheme \<Rightarrow> HalfedgeId \<Rightarrow> bool option" where
  "is_boundary_e c m e = (if valid_e c m e then Some (e_id e < 0) else None)"

definition is_boundary_v :: "ids \<Rightarrow> 'z TriangleTopology_scheme \<Rightarrow> VertexId \<Rightarrow> bool option" where
  "is_boundary_v c m v =
     (if valid_v c m v then map_option (\<lambda>e. e_id e < 0) (halfedge_v c m v) else None)"

definition isolated :: "ids \<Rightarrow> 'z TriangleTopology_scheme \<Rightarrow> VertexId \<Rightarrow> bool option" where
  "isolated c m v =
     (if valid_v c m v then map_option (\<lambda>e. \<not> id_valid c (e_id e)) (halfedge_v c m v)
      else None)"

subsection \<open>The opposite vertex and the reverse links\<close>

text \<open>
  \<^verbatim>\<open>opposite(HalfedgeId)\<close> asserts that its argument is interior. \<^verbatim>\<open>unsafe_set_reverse\<close>
  writes \<open>r\<close> as neighbor \<open>i\<close> of face \<open>f\<close> and then the back link: into the face of
  \<open>r\<close> when \<open>r\<close> is interior, into the boundary slot of \<open>r\<close> otherwise.
\<close>

definition opposite :: "ids \<Rightarrow> 'z TriangleTopology_scheme \<Rightarrow> HalfedgeId \<Rightarrow> VertexId option" where
  "opposite c m e =
     (if is_boundary_e c m e = Some False then do { n \<leftarrow> next c m e; dst c m n } else None)"


subsection \<open>Counts\<close>



subsection \<open>Marking elements erased\<close>

text \<open>
  The three overloads of \<^verbatim>\<open>unsafe_set_erased\<close>. The one for halfedges asserts that its
  argument is a boundary halfedge, then writes through \<^verbatim>\<open>boundaries_[-1-b.id]\<close>.
\<close>

definition unsafe_set_erased_v :: "ids \<Rightarrow> 'z TriangleTopology_scheme \<Rightarrow> VertexId \<Rightarrow> 'z TriangleTopology_scheme option" where
  "unsafe_set_erased_v c m v =
     do { ve \<leftarrow> array_set (vertex_to_edge m) (v_id v) (HalfedgeId (erased_id c));
          Some (m\<lparr>vertex_to_edge := ve, n_vertices := n_vertices m - 1\<rparr>) }"

definition unsafe_set_erased_f :: "ids \<Rightarrow> 'z TriangleTopology_scheme \<Rightarrow> FaceId \<Rightarrow> 'z TriangleTopology_scheme option" where
  "unsafe_set_erased_f c m f =
     do { I \<leftarrow> array_get (faces m) (f_id f);
          fs \<leftarrow> array_set (faces m) (f_id f)
                 (I\<lparr>vertices := Vector3 (VertexId (erased_id c)) (vec_y (vertices I)) (vec_z (vertices I))\<rparr>);
          Some (m\<lparr>faces := fs, n_faces := n_faces m - 1\<rparr>) }"

definition unsafe_set_erased_e :: "ids \<Rightarrow> 'z TriangleTopology_scheme \<Rightarrow> HalfedgeId \<Rightarrow> 'z TriangleTopology_scheme option" where
  "unsafe_set_erased_e c m b =
     (if e_id b < 0
      then do { B \<leftarrow> array_get (boundaries m) (-1 - e_id b);
                bs \<leftarrow> array_set (boundaries m) (-1 - e_id b)
                       (B\<lparr>b_src := VertexId (erased_id c), b_next := erased_boundaries m\<rparr>);
                Some (m\<lparr>boundaries := bs, erased_boundaries := b,
                        n_boundary_edges := n_boundary_edges m - 1\<rparr>) }
      else None)"

subsection \<open>Array ranges and sentinel slots\<close>

text \<open>
  An id is within the current array range when the slot it names is allocated: the
  slot of its face for an interior halfedge, the boundary slot \<open>-1-e\<close> for a boundary
  halfedge. The sentinel slot of an id is the one integer that carries its tombstone:
  \<^verbatim>\<open>vertex_to_edge_[v].id\<close>, \<^verbatim>\<open>faces_[f].vertices.x.id\<close> (also for the interior
  halfedges of \<open>f\<close>) and \<^verbatim>\<open>boundaries_[-1-e].src.id\<close>. Outside the range there is
  no slot, and the sentinel is \<open>None\<close>.
\<close>

definition in_range_e :: "'z TriangleTopology_scheme \<Rightarrow> HalfedgeId \<Rightarrow> bool" where
  "in_range_e m e \<longleftrightarrow>
     (if e_id e \<ge> 0 then array_valid (faces m) (c_div (e_id e) 3)
      else array_valid (boundaries m) (-1 - e_id e))"

definition sentinel_v :: "'z TriangleTopology_scheme \<Rightarrow> VertexId \<Rightarrow> int option" where
  "sentinel_v m v = map_option e_id (array_get (vertex_to_edge m) (v_id v))"

definition sentinel_f :: "'z TriangleTopology_scheme \<Rightarrow> FaceId \<Rightarrow> int option" where
  "sentinel_f m f = map_option (\<lambda>I. v_id (vec_x (vertices I))) (array_get (faces m) (f_id f))"

definition sentinel_e :: "'z TriangleTopology_scheme \<Rightarrow> HalfedgeId \<Rightarrow> int option" where
  "sentinel_e m e =
     (if e_id e \<ge> 0 then sentinel_f m (FaceId (c_div (e_id e) 3))
      else map_option (\<lambda>B. v_id (b_src B)) (array_get (boundaries m) (-1 - e_id e)))"

section \<open>Traversal helpers\<close>

text \<open>
  The iterator \<^verbatim>\<open>TriangleTopologyOutgoing\<close>: the current halfedge \<open>e\<close> and the flag
  \<open>first\<close> (the mesh it refers to is the argument \<open>m\<close>). \<open>Outgoing_incr\<close> is
  \<^verbatim>\<open>operator++\<close>, \<open>Outgoing_neq\<close> is \<^verbatim>\<open>operator!=\<close> and \<open>Outgoing_deref\<close> is
  \<^verbatim>\<open>operator*\<close>. \<open>for_outgoing\<close> is the range-based \<^verbatim>\<open>for\<close> loop over
  \<^verbatim>\<open>Range<TriangleTopologyOutgoing>(c,c)\<close>, collecting the values the loop body sees:
  while the iterator differs from the end, dereference it, then increment it. The loop
  has no bound of its own, so it is a partial function: \<open>None\<close> is a walk that fails an
  assertion or never returns to its start.
\<close>

record TriangleTopologyOutgoing =
  it_e :: HalfedgeId
  it_first :: bool

definition Outgoing_incr :: "ids \<Rightarrow> 'z TriangleTopology_scheme \<Rightarrow> TriangleTopologyOutgoing \<Rightarrow> TriangleTopologyOutgoing option" where
  "Outgoing_incr c m it = do { e' \<leftarrow> left c m (it_e it); Some \<lparr>it_e = e', it_first = False\<rparr> }"

definition Outgoing_neq :: "TriangleTopologyOutgoing \<Rightarrow> TriangleTopologyOutgoing \<Rightarrow> bool" where
  "Outgoing_neq it o' \<longleftrightarrow> it_first it \<or> it_e it \<noteq> it_e o'"

definition Outgoing_deref :: "TriangleTopologyOutgoing \<Rightarrow> HalfedgeId" where
  "Outgoing_deref it = it_e it"

partial_function (option) for_outgoing ::
  "ids \<Rightarrow> 'z TriangleTopology_scheme \<Rightarrow> TriangleTopologyOutgoing \<Rightarrow> TriangleTopologyOutgoing
     \<Rightarrow> HalfedgeId list \<Rightarrow> HalfedgeId list option" where
  "for_outgoing c m it en acc =
     (if Outgoing_neq it en
      then do { it' \<leftarrow> Outgoing_incr c m it; for_outgoing c m it' en (acc @ [Outgoing_deref it]) }
      else Some acc)"

declare for_outgoing.simps [code]

definition outgoing :: "ids \<Rightarrow> 'z TriangleTopology_scheme \<Rightarrow> VertexId \<Rightarrow> HalfedgeId list option" where
  "outgoing c m v =
     do { e \<leftarrow> halfedge_v c m v;
          let it = \<lparr>it_e = e, it_first = id_valid c (e_id e)\<rparr>
          in for_outgoing c m it it [] }"

section \<open>Local manifoldness\<close>

text \<open>
  The ranges \<^verbatim>\<open>all_vertices()\<close> and \<^verbatim>\<open>all_halfedges()\<close> of the class: every allocated
  slot, erased or not.
\<close>

definition all_vertices :: "'z TriangleTopology_scheme \<Rightarrow> VertexId list" where
  "all_vertices m = map VertexId [0 .. int (length (vertex_to_edge m)) - 1]"

definition all_halfedges :: "'z TriangleTopology_scheme \<Rightarrow> HalfedgeId list" where
  "all_halfedges m =
     map HalfedgeId [- int (length (boundaries m)) .. int (length (faces m)) * 3 - 1]"

text \<open>
  The link structure that the data model keeps for every valid halfedge \<open>e\<close>:
  \<open>prev(e)\<close> is a valid halfedge whose \<open>next\<close> is \<open>e\<close>, and \<open>reverse(e)\<close> is a valid
  halfedge whose \<open>reverse\<close> is \<open>e\<close> and whose source is the destination of \<open>e\<close>.
  A vertex is manifold when its stored halfedge, if it has one, is a valid halfedge
  that leaves the vertex and every halfedge leaving the vertex is met from it by steps
  of \<open>left\<close> (the fan around the vertex is a single one); a vertex without a stored
  halfedge is the source of no halfedge. \<open>left_orbit c m n e\<close> lists \<open>e\<close>, \<open>left e\<close>, ...,
  at most \<open>n\<close> of them. A mesh is locally manifold when its links are consistent and
  each of its valid vertices is manifold.
\<close>

fun left_orbit :: "ids \<Rightarrow> 'z TriangleTopology_scheme \<Rightarrow> nat \<Rightarrow> HalfedgeId \<Rightarrow> HalfedgeId list" where
  "left_orbit c m 0 e = []"
| "left_orbit c m (Suc n) e =
     e # (case left c m e of None \<Rightarrow> [] | Some e' \<Rightarrow> left_orbit c m n e')"

definition halfedges_linked :: "ids \<Rightarrow> 'z TriangleTopology_scheme \<Rightarrow> bool" where
  "halfedges_linked c m \<longleftrightarrow>
     (\<forall>e \<in> set (all_halfedges m). valid_e c m e \<longrightarrow>
        (case prev c m e of None \<Rightarrow> False
         | Some p \<Rightarrow> valid_e c m p \<and> next c m p = Some e)
        \<and> (case reverse c m e of None \<Rightarrow> False
           | Some r \<Rightarrow> valid_e c m r \<and> reverse c m r = Some e
                       \<and> (case dst c m e of None \<Rightarrow> False
                          | Some w \<Rightarrow> src c m r = Some w)))"

definition manifold_at :: "ids \<Rightarrow> 'z TriangleTopology_scheme \<Rightarrow> VertexId \<Rightarrow> bool" where
  "manifold_at c m v \<longleftrightarrow>
     (case halfedge_v c m v of None \<Rightarrow> False
      | Some e0 \<Rightarrow>
          if id_valid c (e_id e0)
          then valid_e c m e0 \<and> src c m e0 = Some v
               \<and> (\<forall>e \<in> set (all_halfedges m). valid_e c m e \<and> src c m e = Some v \<longrightarrow>
                     e \<in> set (left_orbit c m (length (all_halfedges m)) e0))
          else (\<forall>e \<in> set (all_halfedges m). valid_e c m e \<longrightarrow> src c m e \<noteq> Some v))"

definition locally_manifold :: "ids \<Rightarrow> 'z TriangleTopology_scheme \<Rightarrow> bool" where
  "locally_manifold c m \<longleftrightarrow>
     halfedges_linked c m
     \<and> (\<forall>v \<in> set (all_vertices m). valid_v c m v \<longrightarrow> manifold_at c m v)"

definition outgoing_halfedges :: "ids \<Rightarrow> 'z TriangleTopology_scheme \<Rightarrow> VertexId \<Rightarrow> HalfedgeId set" where
  "outgoing_halfedges c m v = {e. valid_e c m e \<and> src c m e = Some v}"

text \<open>The source of every valid halfedge is a valid vertex.\<close>

definition endpoints_valid :: "ids \<Rightarrow> 'z TriangleTopology_scheme \<Rightarrow> bool" where
  "endpoints_valid c m \<longleftrightarrow>
     (\<forall>e \<in> set (all_halfedges m). valid_e c m e \<longrightarrow>
        (case src c m e of None \<Rightarrow> False | Some v \<Rightarrow> valid_v c m v))"

text \<open>At most one halfedge runs from a vertex to another one.\<close>

definition edges_unique :: "ids \<Rightarrow> 'z TriangleTopology_scheme \<Rightarrow> bool" where
  "edges_unique c m \<longleftrightarrow>
     (\<forall>e \<in> set (all_halfedges m). \<forall>e' \<in> set (all_halfedges m).
        valid_e c m e \<and> valid_e c m e' \<and> src c m e = src c m e' \<and> dst c m e = dst c m e'
        \<longrightarrow> e = e')"

text \<open>A list in rotational order: each element is \<open>left\<close> of the one before it.\<close>

definition left_chain :: "ids \<Rightarrow> 'z TriangleTopology_scheme \<Rightarrow> HalfedgeId list \<Rightarrow> bool" where
  "left_chain c m es \<longleftrightarrow> (\<forall>i. Suc i < length es \<longrightarrow> left c m (es ! i) = Some (es ! Suc i))"

text \<open>A closed mesh has no boundary halfedge, live or erased.\<close>

definition closed_manifold :: "ids \<Rightarrow> 'z TriangleTopology_scheme \<Rightarrow> bool" where
  "closed_manifold c m \<longleftrightarrow> locally_manifold c m \<and> n_boundary_edges m = 0 \<and> boundaries m = []"

section \<open>Edge flips\<close>

text \<open>
  Modelled from the spec: \<^verbatim>\<open>TriangleTopology::halfedge(VertexId,VertexId)\<close>, whose body
  is in \<^verbatim>\<open>TriangleTopology.cpp\<close> (not among the sources). It searches the halfedges
  around \<open>v0\<close> for the one that ends at \<open>v1\<close> and returns an invalid handle if there is
  none.
\<close>

fun find_edge_to :: "ids \<Rightarrow> 'z TriangleTopology_scheme \<Rightarrow> VertexId \<Rightarrow> HalfedgeId list \<Rightarrow> HalfedgeId option" where
  "find_edge_to c m v1 [] = Some (HalfedgeId (invalid_id c))"
| "find_edge_to c m v1 (e # es) =
     do { d \<leftarrow> dst c m e; if d = v1 then Some e else find_edge_to c m v1 es }"

definition halfedge_vv ::
  "ids \<Rightarrow> 'z TriangleTopology_scheme \<Rightarrow> VertexId \<Rightarrow> VertexId \<Rightarrow> HalfedgeId option" where
  "halfedge_vv c m v0 v1 = do { es \<leftarrow> outgoing c m v0; find_edge_to c m v1 es }"





section \<open>Adding a face\<close>

text \<open>
  Modelled from the spec: \<^verbatim>\<open>add_face\<close>, whose body is in \<^verbatim>\<open>TriangleTopology.cpp\<close> (not
  among the sources). Validity of the handles and of the structure is checked at
  entry, before anything is written: the three vertices are valid; no two of them are
  equal (no self-loop); each of them is isolated or on the boundary, so that the new
  corner does not make its fan non-manifold; and none of the three oriented edges
  \<open>v0 v1\<close>, \<open>v1 v2\<close>, \<open>v2 v0\<close> is already an interior halfedge, that is, claimed by a
  face. A failed check refuses the face and leaves the mesh as it was. The spec does
  not describe the wiring of an accepted face into the boundary structure down to the
  arrays; it is the parameter \<open>wire\<close> of the model, which returns the new face and the
  new mesh.
\<close>

definition vertex_open :: "ids \<Rightarrow> 'z TriangleTopology_scheme \<Rightarrow> VertexId \<Rightarrow> bool" where
  "vertex_open c m v \<longleftrightarrow> is_boundary_v c m v = Some True \<or> isolated c m v = Some True"

definition edge_claimed :: "ids \<Rightarrow> HalfedgeId \<Rightarrow> bool" where
  "edge_claimed c e \<longleftrightarrow> id_valid c (e_id e) \<and> e_id e \<ge> 0"

definition add_face ::
  "ids \<Rightarrow> ('z TriangleTopology_scheme \<Rightarrow> VertexId Vector3 \<Rightarrow> (FaceId \<times> 'z TriangleTopology_scheme) option)
     \<Rightarrow> 'z TriangleTopology_scheme \<Rightarrow> VertexId Vector3
     \<Rightarrow> ((error + FaceId) \<times> 'z TriangleTopology_scheme) option" where
  "add_face c wire m v =
     (case v of Vector3 v0 v1 v2 \<Rightarrow>
        if \<not> (valid_v c m v0 \<and> valid_v c m v1 \<and> valid_v c m v2)
          then Some (Inl InvalidHandle, m)
        else if v0 = v1 \<or> v1 = v2 \<or> v2 = v0
          then Some (Inl StructuralViolation, m)
        else if \<not> (vertex_open c m v0 \<and> vertex_open c m v1 \<and> vertex_open c m v2)
          then Some (Inl StructuralViolation, m)
        else do { e0 \<leftarrow> halfedge_vv c m v0 v1;
                  e1 \<leftarrow> halfedge_vv c m v1 v2;
                  e2 \<leftarrow> halfedge_vv c m v2 v0;
                  if edge_claimed c e0 \<or> edge_claimed c e1 \<or> edge_claimed c e2
                  then Some (Inl StructuralViolation, m)
                  else do { r \<leftarrow> wire m v; Some (Inr (fst r), snd r) } })"

definition shares_oriented_edge :: "ids \<Rightarrow> 'z TriangleTopology_scheme \<Rightarrow> VertexId Vector3 \<Rightarrow> bool" where
  "shares_oriented_edge c m v \<longleftrightarrow>
     (\<exists>e \<in> set (all_halfedges m). valid_e c m e \<and> 0 \<le> e_id e
        \<and> (case v of Vector3 v0 v1 v2 \<Rightarrow>
              (src c m e = Some v0 \<and> dst c m e = Some v1)
              \<or> (src c m e = Some v1 \<and> dst c m e = Some v2)
              \<or> (src c m e = Some v2 \<and> dst c m e = Some v0)))"

section \<open>The live counts under flips and splits\<close>








section \<open>The field registry\<close>

text \<open>
  Modelled from the spec: \<^verbatim>\<open>UntypedArray\<close> of \<^verbatim>\<open>geode/array/UntypedArray.h\<close> (not among
  the sources), the type-erased backing array of a field: a runtime tag for the element
  type and the elements. \<^verbatim>\<open>UntypedArray(Types<T>(),n)\<close> allocates \<open>n\<close> elements of
  type \<open>T\<close>, each the default value \<open>d\<close> of the type; the typed view \<^verbatim>\<open>get<T,Id>()\<close>
  fails for an element type other than the stored one.
\<close>

record ('ty, 'a) UntypedArray =
  elem_type :: 'ty
  flat :: "'a list"

definition UntypedArray_new :: "'ty \<Rightarrow> 'a \<Rightarrow> int \<Rightarrow> ('ty, 'a) UntypedArray" where
  "UntypedArray_new ty d n = \<lparr>elem_type = ty, flat = replicate (nat n) d\<rparr>"

definition UntypedArray_get :: "('ty, 'a) UntypedArray \<Rightarrow> 'ty \<Rightarrow> error + 'a list" where
  "UntypedArray_get a ty = (if elem_type a = ty then Inr (flat a) else Inl LookupError)"

text \<open>
  Modelled from the spec: \<^verbatim>\<open>Hashtable<int,int>\<close> of \<^verbatim>\<open>geode/structure/Hashtable.h\<close>
  (not among the sources) is a map from field ids to positions; \<^verbatim>\<open>get\<close> fails with
  a lookup error for a key the table does not contain.
\<close>

definition Hashtable_get :: "(int \<rightharpoonup> int) \<Rightarrow> int \<Rightarrow> error + int" where
  "Hashtable_get t k = (case t k of None \<Rightarrow> Inl LookupError | Some w \<Rightarrow> Inr w)"

text \<open>
  \<^verbatim>\<open>FieldId<T,Id>\<close>: the integer id of the field and, statically, its element type.
  \<^verbatim>\<open>MutableTriangleTopology\<close> extends \<^verbatim>\<open>TriangleTopology\<close> by the three lists of
  backing arrays, the three tables and the counter \<^verbatim>\<open>next_field_id\<close>.
\<close>

datatype 'ty FieldId = FieldId (field_id: int) (field_type: 'ty)

record ('ty, 'a) MutableTriangleTopology = TriangleTopology +
  vertex_fields :: "('ty, 'a) UntypedArray list"
  face_fields :: "('ty, 'a) UntypedArray list"
  halfedge_fields :: "('ty, 'a) UntypedArray list"
  id_to_vertex_field :: "int \<rightharpoonup> int"
  id_to_face_field :: "int \<rightharpoonup> int"
  id_to_halfedge_field :: "int \<rightharpoonup> int"
  next_field_id :: int

text \<open>
  The macro \<^verbatim>\<open>FIELD_ACCESS_FUNCTIONS(prim, Id, size_expr)\<close>: \<open>add_field\<close>, \<open>has_field\<close>
  and \<open>field\<close> are its bodies over the list of arrays and the table of one kind
  \<open>prim\<close>, and the three instances below pass \<^verbatim>\<open>vertex_to_edge_.size()\<close>,
  \<^verbatim>\<open>faces_.size()\<close> and \<^verbatim>\<open>faces_.size()*3\<close> for \<open>size_expr\<close>. \<open>add_field\<close> updates
  \<^verbatim>\<open>next_field_id\<close> before its assertion, so the counter keeps its new value when the
  assertion throws.
\<close>

type_synonym ('ty, 'a) registry = "('ty, 'a) UntypedArray list \<times> (int \<rightharpoonup> int) \<times> int"

definition add_field ::
  "ids \<Rightarrow> 'ty \<Rightarrow> 'a \<Rightarrow> int \<Rightarrow> int \<Rightarrow> ('ty, 'a) registry \<Rightarrow> (error + 'ty FieldId) \<times> ('ty, 'a) registry" where
  "add_field c ty d size_expr i r =
     (case r of (fs, id_to_field, nfi) \<Rightarrow>
        (let i' = (if i = invalid_id c then nfi else i);
             nfi' = (if i = invalid_id c then nfi + 1 else max nfi (i + 1))
         in if i' \<in> dom id_to_field then (Inl AssertionError, (fs, id_to_field, nfi'))
            else (let fs' = fs @ [UntypedArray_new ty d size_expr]
                  in (Inr (FieldId i' ty),
                      (fs', id_to_field(i' \<mapsto> int (length fs') - 1), nfi')))))"

definition has_field :: "ids \<Rightarrow> (int \<rightharpoonup> int) \<Rightarrow> 'ty FieldId \<Rightarrow> bool" where
  "has_field c id_to_field h \<longleftrightarrow> id_valid c (field_id h) \<and> field_id h \<in> dom id_to_field"

definition field :: "('ty, 'a) UntypedArray list \<Rightarrow> (int \<rightharpoonup> int) \<Rightarrow> 'ty FieldId \<Rightarrow> error + 'a list" where
  "field fs id_to_field h =
     (case Hashtable_get id_to_field (field_id h) of
        Inl err \<Rightarrow> Inl err
      | Inr k \<Rightarrow> (case array_get fs k of
                    None \<Rightarrow> Inl AssertionError
                  | Some a \<Rightarrow> UntypedArray_get a (field_type h)))"

definition add_vertex_field ::
  "ids \<Rightarrow> 'ty \<Rightarrow> 'a \<Rightarrow> int \<Rightarrow> ('ty, 'a, 'z) MutableTriangleTopology_scheme
     \<Rightarrow> (error + 'ty FieldId) \<times> ('ty, 'a, 'z) MutableTriangleTopology_scheme" where
  "add_vertex_field c ty d i m =
     (case add_field c ty d (int (length (vertex_to_edge m))) i
             (vertex_fields m, id_to_vertex_field m, next_field_id m) of
        (r, fs, id_to_field, nfi) \<Rightarrow>
          (r, m\<lparr>vertex_fields := fs, id_to_vertex_field := id_to_field, next_field_id := nfi\<rparr>))"

definition add_face_field ::
  "ids \<Rightarrow> 'ty \<Rightarrow> 'a \<Rightarrow> int \<Rightarrow> ('ty, 'a, 'z) MutableTriangleTopology_scheme
     \<Rightarrow> (error + 'ty FieldId) \<times> ('ty, 'a, 'z) MutableTriangleTopology_scheme" where
  "add_face_field c ty d i m =
     (case add_field c ty d (int (length (faces m))) i
             (face_fields m, id_to_face_field m, next_field_id m) of
        (r, fs, id_to_field, nfi) \<Rightarrow>
          (r, m\<lparr>face_fields := fs, id_to_face_field := id_to_field, next_field_id := nfi\<rparr>))"

definition add_halfedge_field ::
  "ids \<Rightarrow> 'ty \<Rightarrow> 'a \<Rightarrow> int \<Rightarrow> ('ty, 'a, 'z) MutableTriangleTopology_scheme
     \<Rightarrow> (error + 'ty FieldId) \<times> ('ty, 'a, 'z) MutableTriangleTopology_scheme" where
  "add_halfedge_field c ty d i m =
     (case add_field c ty d (int (length (faces m)) * 3) i
             (halfedge_fields m, id_to_halfedge_field m, next_field_id m) of
        (r, fs, id_to_field, nfi) \<Rightarrow>
          (r, m\<lparr>halfedge_fields := fs, id_to_halfedge_field := id_to_field, next_field_id := nfi\<rparr>))"

definition vertex_field :: "('ty, 'a, 'z) MutableTriangleTopology_scheme \<Rightarrow> 'ty FieldId \<Rightarrow> error + 'a list" where
  "vertex_field m h = field (vertex_fields m) (id_to_vertex_field m) h"

definition face_field :: "('ty, 'a, 'z) MutableTriangleTopology_scheme \<Rightarrow> 'ty FieldId \<Rightarrow> error + 'a list" where
  "face_field m h = field (face_fields m) (id_to_face_field m) h"

definition halfedge_field :: "('ty, 'a, 'z) MutableTriangleTopology_scheme \<Rightarrow> 'ty FieldId \<Rightarrow> error + 'a list" where
  "halfedge_field m h = field (halfedge_fields m) (id_to_halfedge_field m) h"

text \<open>\<^verbatim>\<open>Field::valid(Id i)\<close> of \<^verbatim>\<open>Field.h\<close>: \<^verbatim>\<open>flat.valid(i.idx())\<close>.\<close>

definition Field_valid :: "'a list \<Rightarrow> int \<Rightarrow> bool" where
  "Field_valid xs i \<longleftrightarrow> array_valid xs i"

section \<open>Compaction\<close>

text \<open>
  Modelled from the spec: \<^verbatim>\<open>collect_garbage\<close> and \<^verbatim>\<open>is_garbage_collected\<close>, whose
  bodies are in \<^verbatim>\<open>TriangleTopology.cpp\<close> (not among the sources). Compaction removes
  the tombstoned slots of the vertex, face and boundary arrays and returns the three
  maps from old to new indices: a live slot goes to the number of live slots before
  it, an erased slot has no new index (the model writes \<open>-1\<close> there). Every id stored
  in a live slot is renamed by these maps: a vertex \<open>v\<close> to \<open>vp[v]\<close>, an interior
  halfedge \<open>3f+i\<close> to \<open>3*fp[f]+i\<close>, a boundary halfedge \<open>-1-b\<close> to \<open>-1-bp[b]\<close>, an
  invalid handle stays as it is. A live slot that refers to a slot that is erased or
  not allocated has no image, and compaction of such a structure is undefined
  (\<open>None\<close>). The registered fields are compacted by the same maps, a halfedge field by
  the map of the faces for each of the three corners, and the free list of erased
  boundary slots is emptied. A structure is garbage collected when the three live
  counts are the sizes of the three arrays.
\<close>

fun old_to_new :: "int \<Rightarrow> bool list \<Rightarrow> int list" where
  "old_to_new k [] = []"
| "old_to_new k (live # ls) =
     (if live then k # old_to_new (k + 1) ls else (- 1) # old_to_new k ls)"

definition compact :: "bool list \<Rightarrow> 'a list \<Rightarrow> 'a list" where
  "compact ls xs = map snd (filter fst (zip ls xs))"

definition permute_v :: "int list \<Rightarrow> VertexId \<Rightarrow> VertexId option" where
  "permute_v vp v = do { k \<leftarrow> array_get vp (v_id v); if k < 0 then None else Some (VertexId k) }"

definition permute_e :: "ids \<Rightarrow> int list \<Rightarrow> int list \<Rightarrow> HalfedgeId \<Rightarrow> HalfedgeId option" where
  "permute_e c fp bp e =
     (if \<not> id_valid c (e_id e) then Some e
      else if e_id e \<ge> 0
      then (let f = c_div (e_id e) 3 in
            do { k \<leftarrow> array_get fp f;
                 if k < 0 then None else Some (HalfedgeId (3 * k + (e_id e - 3 * f))) })
      else do { k \<leftarrow> array_get bp (-1 - e_id e);
                if k < 0 then None else Some (HalfedgeId (-1 - k)) })"

definition permute_face :: "ids \<Rightarrow> int list \<Rightarrow> int list \<Rightarrow> int list \<Rightarrow> FaceInfo \<Rightarrow> FaceInfo option" where
  "permute_face c vp fp bp I =
     do { a \<leftarrow> permute_v vp (vec_x (vertices I));
          b \<leftarrow> permute_v vp (vec_y (vertices I));
          d \<leftarrow> permute_v vp (vec_z (vertices I));
          n0 \<leftarrow> permute_e c fp bp (vec_x (neighbors I));
          n1 \<leftarrow> permute_e c fp bp (vec_y (neighbors I));
          n2 \<leftarrow> permute_e c fp bp (vec_z (neighbors I));
          Some \<lparr>vertices = Vector3 a b d, neighbors = Vector3 n0 n1 n2\<rparr> }"

definition permute_boundary ::
  "ids \<Rightarrow> int list \<Rightarrow> int list \<Rightarrow> int list \<Rightarrow> BoundaryInfo \<Rightarrow> BoundaryInfo option" where
  "permute_boundary c vp fp bp B =
     do { p \<leftarrow> permute_e c fp bp (b_prev B);
          n \<leftarrow> permute_e c fp bp (b_next B);
          r \<leftarrow> permute_e c fp bp (b_reverse B);
          s \<leftarrow> permute_v vp (b_src B);
          Some \<lparr>b_prev = p, b_next = n, b_reverse = r, b_src = s\<rparr> }"

definition compact_field :: "bool list \<Rightarrow> ('ty, 'a) UntypedArray \<Rightarrow> ('ty, 'a) UntypedArray" where
  "compact_field ls a = a\<lparr>flat := compact ls (flat a)\<rparr>"

definition live_vertices :: "ids \<Rightarrow> 'z TriangleTopology_scheme \<Rightarrow> bool list" where
  "live_vertices c m = map (\<lambda>e. e_id e \<noteq> erased_id c) (vertex_to_edge m)"

definition live_faces :: "ids \<Rightarrow> 'z TriangleTopology_scheme \<Rightarrow> bool list" where
  "live_faces c m = map (\<lambda>I. v_id (vec_x (vertices I)) \<noteq> erased_id c) (faces m)"

definition live_boundaries :: "ids \<Rightarrow> 'z TriangleTopology_scheme \<Rightarrow> bool list" where
  "live_boundaries c m = map (\<lambda>B. v_id (b_src B) \<noteq> erased_id c) (boundaries m)"

definition collect_garbage ::
  "ids \<Rightarrow> ('ty, 'a, 'z) MutableTriangleTopology_scheme
     \<Rightarrow> (int list Vector3 \<times> ('ty, 'a, 'z) MutableTriangleTopology_scheme) option" where
  "collect_garbage c m =
     (let lv = live_vertices c m; lf = live_faces c m; lb = live_boundaries c m;
          vp = old_to_new 0 lv; fp = old_to_new 0 lf; bp = old_to_new 0 lb
      in do { fs \<leftarrow> those (map (permute_face c vp fp bp) (compact lf (faces m)));
              ve \<leftarrow> those (map (permute_e c fp bp) (compact lv (vertex_to_edge m)));
              bs \<leftarrow> those (map (permute_boundary c vp fp bp) (compact lb (boundaries m)));
              Some (Vector3 vp fp bp,
                    m\<lparr>faces := fs, vertex_to_edge := ve, boundaries := bs,
                      erased_boundaries := HalfedgeId (invalid_id c),
                      vertex_fields := map (compact_field lv) (vertex_fields m),
                      face_fields := map (compact_field lf) (face_fields m),
                      halfedge_fields :=
                        map (compact_field (concat (map (\<lambda>l. [l, l, l]) lf))) (halfedge_fields m)\<rparr>) })"

definition is_garbage_collected :: "'z TriangleTopology_scheme \<Rightarrow> bool" where
  "is_garbage_collected m \<longleftrightarrow>
     n_vertices m = int (length (vertex_to_edge m)) \<and> n_faces m = int (length (faces m))
     \<and> n_boundary_edges m = int (length (boundaries m))"

definition identity_permutation :: "nat \<Rightarrow> int list" where
  "identity_permutation n = map int [0..<n]"

definition sentinel_unused :: "ids \<Rightarrow> 'z TriangleTopology_scheme \<Rightarrow> bool" where
  "sentinel_unused c m \<longleftrightarrow>
     invalid_id c \<noteq> erased_id c
     \<and> (erased_id c < - int (length (boundaries m))
        \<or> (erased_id c \<ge> 3 * int (length (faces m))
           \<and> erased_id c \<ge> int (length (vertex_to_edge m))))"

text \<open>
  References that compaction can rename: those of a live slot lead to a valid vertex,
  or to a valid halfedge or an invalid handle. After compaction every stored id lies
  in the new ranges.
\<close>

definition halfedge_ref_live :: "ids \<Rightarrow> 'z TriangleTopology_scheme \<Rightarrow> HalfedgeId \<Rightarrow> bool" where
  "halfedge_ref_live c m e \<longleftrightarrow> \<not> id_valid c (e_id e) \<or> valid_e c m e"

definition refs_live :: "ids \<Rightarrow> 'z TriangleTopology_scheme \<Rightarrow> bool" where
  "refs_live c m \<longleftrightarrow>
     (\<forall>I \<in> set (faces m). v_id (vec_x (vertices I)) \<noteq> erased_id c \<longrightarrow>
        valid_v c m (vec_x (vertices I)) \<and> valid_v c m (vec_y (vertices I))
        \<and> valid_v c m (vec_z (vertices I))
        \<and> halfedge_ref_live c m (vec_x (neighbors I)) \<and> halfedge_ref_live c m (vec_y (neighbors I))
        \<and> halfedge_ref_live c m (vec_z (neighbors I)))
     \<and> (\<forall>e \<in> set (vertex_to_edge m). e_id e \<noteq> erased_id c \<longrightarrow> halfedge_ref_live c m e)
     \<and> (\<forall>B \<in> set (boundaries m). v_id (b_src B) \<noteq> erased_id c \<longrightarrow>
          halfedge_ref_live c m (b_prev B) \<and> halfedge_ref_live c m (b_next B)
          \<and> halfedge_ref_live c m (b_reverse B) \<and> valid_v c m (b_src B))"

definition vertex_ref_ok :: "nat \<Rightarrow> VertexId \<Rightarrow> bool" where
  "vertex_ref_ok nv v \<longleftrightarrow> 0 \<le> v_id v \<and> v_id v < int nv"

definition halfedge_ref_ok :: "ids \<Rightarrow> nat \<Rightarrow> nat \<Rightarrow> HalfedgeId \<Rightarrow> bool" where
  "halfedge_ref_ok c nf nb e \<longleftrightarrow>
     \<not> id_valid c (e_id e) \<or> (- int nb \<le> e_id e \<and> e_id e < 3 * int nf)"

definition face_refs_ok :: "ids \<Rightarrow> nat \<Rightarrow> nat \<Rightarrow> nat \<Rightarrow> FaceInfo \<Rightarrow> bool" where
  "face_refs_ok c nv nf nb I \<longleftrightarrow>
     vertex_ref_ok nv (vec_x (vertices I)) \<and> vertex_ref_ok nv (vec_y (vertices I))
     \<and> vertex_ref_ok nv (vec_z (vertices I))
     \<and> halfedge_ref_ok c nf nb (vec_x (neighbors I)) \<and> halfedge_ref_ok c nf nb (vec_y (neighbors I))
     \<and> halfedge_ref_ok c nf nb (vec_z (neighbors I))"

definition boundary_refs_ok :: "ids \<Rightarrow> nat \<Rightarrow> nat \<Rightarrow> nat \<Rightarrow> BoundaryInfo \<Rightarrow> bool" where
  "boundary_refs_ok c nv nf nb B \<longleftrightarrow>
     halfedge_ref_ok c nf nb (b_prev B) \<and> halfedge_ref_ok c nf nb (b_next B)
     \<and> halfedge_ref_ok c nf nb (b_reverse B) \<and> vertex_ref_ok nv (b_src B)"

section \<open>Example meshes\<close>

text \<open>
  The reserved values as the smallest and the largest 32-bit integer, and the mesh of
  the single triangle \<open>(0,1,2)\<close>: one face, three boundary halfedges \<open>-1\<close>, \<open>-2\<close>,
  \<open>-3\<close> opposite to the interior halfedges \<open>0\<close>, \<open>1\<close>, \<open>2\<close>.
\<close>

definition ids32 :: ids where
  "ids32 = \<lparr>invalid_id = - 2147483648, erased_id = 2147483647\<rparr>"

definition triangle_mesh :: TriangleTopology where
  "triangle_mesh =
     \<lparr>n_vertices = 3, n_faces = 1, n_boundary_edges = 3,
      faces = [\<lparr>vertices = Vector3 (VertexId 0) (VertexId 1) (VertexId 2),
                neighbors = Vector3 (HalfedgeId (-1)) (HalfedgeId (-2)) (HalfedgeId (-3))\<rparr>],
      vertex_to_edge = [HalfedgeId (-3), HalfedgeId (-1), HalfedgeId (-2)],
      boundaries =
        [\<lparr>b_prev = HalfedgeId (-2), b_next = HalfedgeId (-3), b_reverse = HalfedgeId 0,
          b_src = VertexId 1\<rparr>,
         \<lparr>b_prev = HalfedgeId (-3), b_next = HalfedgeId (-1), b_reverse = HalfedgeId 1,
          b_src = VertexId 2\<rparr>,
         \<lparr>b_prev = HalfedgeId (-1), b_next = HalfedgeId (-2), b_reverse = HalfedgeId 2,
          b_src = VertexId 0\<rparr>],
      erased_boundaries = HalfedgeId (- 2147483648)\<rparr>"

text \<open>
  The same arrays after vertex \<open>2\<close>, the face and the three boundary halfedges were
  marked erased: every slot is still allocated, the tombstones are in place, and the
  erased boundary slots are chained through \<open>b_next\<close> from \<open>erased_boundaries\<close>.
\<close>

definition erased_mesh :: TriangleTopology where
  "erased_mesh =
     \<lparr>n_vertices = 2, n_faces = 0, n_boundary_edges = 0,
      faces = [\<lparr>vertices = Vector3 (VertexId 2147483647) (VertexId 1) (VertexId 2),
                neighbors = Vector3 (HalfedgeId (-1)) (HalfedgeId (-2)) (HalfedgeId (-3))\<rparr>],
      vertex_to_edge = [HalfedgeId (- 2147483648), HalfedgeId (- 2147483648), HalfedgeId 2147483647],
      boundaries =
        [\<lparr>b_prev = HalfedgeId (-2), b_next = HalfedgeId (- 2147483648), b_reverse = HalfedgeId 0,
          b_src = VertexId 2147483647\<rparr>,
         \<lparr>b_prev = HalfedgeId (-3), b_next = HalfedgeId (-1), b_reverse = HalfedgeId 1,
          b_src = VertexId 2147483647\<rparr>,
         \<lparr>b_prev = HalfedgeId (-1), b_next = HalfedgeId (-2), b_reverse = HalfedgeId 2,
          b_src = VertexId 2147483647\<rparr>],
      erased_boundaries = HalfedgeId (-3)\<rparr>"

text \<open>The triangle as a mutable topology with no field registered.\<close>

definition mutable_triangle_mesh :: "(string, int) MutableTriangleTopology" where
  "mutable_triangle_mesh =
     \<lparr>n_vertices = 3, n_faces = 1, n_boundary_edges = 3,
      faces = faces triangle_mesh,
      vertex_to_edge = vertex_to_edge triangle_mesh,
      boundaries = boundaries triangle_mesh,
      erased_boundaries = HalfedgeId (- 2147483648),
      vertex_fields = [], face_fields = [], halfedge_fields = [],
      id_to_vertex_field = Map.empty, id_to_face_field = Map.empty,
      id_to_halfedge_field = Map.empty, next_field_id = 0\<rparr>"


text \<open>
  The tetrahedron, a closed mesh of four faces; the tetrahedron with one more, isolated,
  vertex \<open>4\<close>; and the tetrahedron after vertex \<open>4\<close> was put into face \<open>0\<close>, which
  splits it into the faces \<open>0\<close>, \<open>4\<close> and \<open>5\<close>.
\<close>

definition tetrahedron :: TriangleTopology where
  "tetrahedron =
     \<lparr>n_vertices = 4, n_faces = 4, n_boundary_edges = 0,
      faces =
        [\<lparr>vertices = Vector3 (VertexId 0) (VertexId 1) (VertexId 2),
          neighbors = Vector3 (HalfedgeId 5) (HalfedgeId 8) (HalfedgeId 11)\<rparr>,
         \<lparr>vertices = Vector3 (VertexId 0) (VertexId 3) (VertexId 1),
          neighbors = Vector3 (HalfedgeId 10) (HalfedgeId 6) (HalfedgeId 0)\<rparr>,
         \<lparr>vertices = Vector3 (VertexId 1) (VertexId 3) (VertexId 2),
          neighbors = Vector3 (HalfedgeId 4) (HalfedgeId 9) (HalfedgeId 1)\<rparr>,
         \<lparr>vertices = Vector3 (VertexId 2) (VertexId 3) (VertexId 0),
          neighbors = Vector3 (HalfedgeId 7) (HalfedgeId 3) (HalfedgeId 2)\<rparr>],
      vertex_to_edge = [HalfedgeId 0, HalfedgeId 1, HalfedgeId 2, HalfedgeId 4],
      boundaries = [],
      erased_boundaries = HalfedgeId (- 2147483648)\<rparr>"



text \<open>
  The two triangles after the face \<open>(1,3,2)\<close> was erased: the face and its two outer
  boundary halfedges are tombstoned, a fifth boundary halfedge runs from \<open>2\<close> to \<open>1\<close>,
  vertex \<open>3\<close> is isolated, and one field is registered for each kind.
\<close>

definition square_minus_face :: "(string, int) MutableTriangleTopology" where
  "square_minus_face =
     \<lparr>n_vertices = 4, n_faces = 1, n_boundary_edges = 3,
      faces = [\<lparr>vertices = Vector3 (VertexId 0) (VertexId 1) (VertexId 2),
                neighbors = Vector3 (HalfedgeId (-1)) (HalfedgeId (-5)) (HalfedgeId (-2))\<rparr>,
               \<lparr>vertices = Vector3 (VertexId 2147483647) (VertexId 3) (VertexId 2),
                neighbors = Vector3 (HalfedgeId (-3)) (HalfedgeId (-4)) (HalfedgeId 1)\<rparr>],
      vertex_to_edge = [HalfedgeId (-2), HalfedgeId (-1), HalfedgeId (-5), HalfedgeId (- 2147483648)],
      boundaries =
        [\<lparr>b_prev = HalfedgeId (-5), b_next = HalfedgeId (-2), b_reverse = HalfedgeId 0,
          b_src = VertexId 1\<rparr>,
         \<lparr>b_prev = HalfedgeId (-1), b_next = HalfedgeId (-5), b_reverse = HalfedgeId 2,
          b_src = VertexId 0\<rparr>,
         \<lparr>b_prev = HalfedgeId (-4), b_next = HalfedgeId (- 2147483648), b_reverse = HalfedgeId 3,
          b_src = VertexId 2147483647\<rparr>,
         \<lparr>b_prev = HalfedgeId (-2), b_next = HalfedgeId (-3), b_reverse = HalfedgeId 4,
          b_src = VertexId 2147483647\<rparr>,
         \<lparr>b_prev = HalfedgeId (-2), b_next = HalfedgeId (-1), b_reverse = HalfedgeId 1,
          b_src = VertexId 2\<rparr>],
      erased_boundaries = HalfedgeId (-4),
      vertex_fields = [\<lparr>elem_type = ''int'', flat = [10, 11, 12, 13]\<rparr>],
      face_fields = [\<lparr>elem_type = ''int'', flat = [20, 21]\<rparr>],
      halfedge_fields = [\<lparr>elem_type = ''int'', flat = [30, 31, 32, 33, 34, 35]\<rparr>],
      id_to_vertex_field = [0 \<mapsto> 0], id_to_face_field = [1 \<mapsto> 0],
      id_to_halfedge_field = [2 \<mapsto> 0], next_field_id = 3\<rparr>"

section \<open>Basic facts\<close>

lemma c_div_nonneg: "0 \<le> a \<Longrightarrow> c_div a 3 = a div 3"
  by (cases "a = 0") (simp_all add: c_div_def)

lemma array_get_Some_iff: "array_get xs i = Some w \<longleftrightarrow> array_valid xs i \<and> xs ! nat i = w"
  by (auto simp: array_get_def)

lemma array_get_None_iff: "array_get xs i = None \<longleftrightarrow> \<not> array_valid xs i"
  by (simp add: array_get_def)

text \<open>The definitions that evaluate the accessors on the example meshes.\<close>

lemmas eval_defs = valid_v_def valid_f_def valid_e_def erased_v_def erased_f_def erased_e_def
  array_valid_def array_get_def array_set_def c_div_def ids32_def triangle_mesh_def erased_mesh_def
  in_range_e_def sentinel_v_def sentinel_f_def sentinel_e_def

section \<open>Validity is the range test and the tombstone test\<close>

lemma valid_v_iff: "valid_v c m v \<longleftrightarrow> array_valid (vertex_to_edge m) (v_id v) \<and> erased_v c m v = Some False"
  by (simp add: valid_v_def)

lemma valid_f_iff: "valid_f c m f \<longleftrightarrow> array_valid (faces m) (f_id f) \<and> erased_f c m f = Some False"
  by (simp add: valid_f_def)

lemma valid_e_iff: "valid_e c m e \<longleftrightarrow> in_range_e m e \<and> erased_e c m e = Some False"
  by (auto simp: valid_e_def in_range_e_def erased_e_def valid_f_def erased_f_def array_get_def
           split: option.splits)

lemma valid_v_sentinel:
  "valid_v c m v = (case sentinel_v m v of None \<Rightarrow> False | Some s \<Rightarrow> s \<noteq> erased_id c)"
  by (auto simp: valid_v_def erased_v_def sentinel_v_def array_get_def)

lemma valid_f_sentinel:
  "valid_f c m f = (case sentinel_f m f of None \<Rightarrow> False | Some s \<Rightarrow> s \<noteq> erased_id c)"
  by (auto simp: valid_f_def erased_f_def sentinel_f_def array_get_def)

lemma valid_e_sentinel:
  "valid_e c m e = (case sentinel_e m e of None \<Rightarrow> False | Some s \<Rightarrow> s \<noteq> erased_id c)"
  by (auto simp: valid_e_def sentinel_e_def valid_f_sentinel array_get_def)

lemma erased_v_sentinel: "erased_v c m v = map_option (\<lambda>s. s = erased_id c) (sentinel_v m v)"
  by (auto simp: erased_v_def sentinel_v_def array_get_def)

lemma erased_f_sentinel: "erased_f c m f = map_option (\<lambda>s. s = erased_id c) (sentinel_f m f)"
  by (auto simp: erased_f_def sentinel_f_def array_get_def)

lemma erased_e_sentinel: "erased_e c m e = map_option (\<lambda>s. s = erased_id c) (sentinel_e m e)"
  by (auto simp: erased_e_def sentinel_e_def sentinel_f_def array_get_def)

lemma sentinel_v_range: "sentinel_v m v = None \<longleftrightarrow> \<not> array_valid (vertex_to_edge m) (v_id v)"
  by (simp add: sentinel_v_def array_get_def)

lemma sentinel_f_range: "sentinel_f m f = None \<longleftrightarrow> \<not> array_valid (faces m) (f_id f)"
  by (simp add: sentinel_f_def array_get_def)

lemma sentinel_e_range: "sentinel_e m e = None \<longleftrightarrow> \<not> in_range_e m e"
  by (simp add: sentinel_e_def in_range_e_def sentinel_f_range array_get_def)

text \<open>
  Claim C10. For an id of any kind, \<open>valid\<close> holds exactly when the id is within the
  current array range and its tombstone test answers "not erased"; so an erased id
  is never valid. An id outside the range is invalid and has no sentinel slot to
  consult. \<open>valid\<close> and \<open>erased\<close> are functions of the one sentinel slot of the id:
  \<open>vertex_to_edge[v]\<close> for a vertex, \<open>vertices.x\<close> of the face for a face and for an
  interior halfedge, \<open>src\<close> of the boundary slot for a boundary halfedge.
\<close>

theorem valid_iff_in_range_and_not_erased:
  "(valid_v c m v \<longleftrightarrow> array_valid (vertex_to_edge m) (v_id v) \<and> erased_v c m v = Some False)
   \<and> (valid_f c m f \<longleftrightarrow> array_valid (faces m) (f_id f) \<and> erased_f c m f = Some False)
   \<and> (valid_e c m e \<longleftrightarrow> in_range_e m e \<and> erased_e c m e = Some False)
   \<and> (erased_v c m v = Some True \<longrightarrow> \<not> valid_v c m v)
   \<and> (erased_f c m f = Some True \<longrightarrow> \<not> valid_f c m f)
   \<and> (erased_e c m e = Some True \<longrightarrow> \<not> valid_e c m e)
   \<and> (\<not> array_valid (vertex_to_edge m) (v_id v) \<longrightarrow> \<not> valid_v c m v \<and> sentinel_v m v = None)
   \<and> (\<not> array_valid (faces m) (f_id f) \<longrightarrow> \<not> valid_f c m f \<and> sentinel_f m f = None)
   \<and> (\<not> in_range_e m e \<longrightarrow> \<not> valid_e c m e \<and> sentinel_e m e = None)
   \<and> valid_v c m v = (case sentinel_v m v of None \<Rightarrow> False | Some s \<Rightarrow> s \<noteq> erased_id c)
   \<and> valid_f c m f = (case sentinel_f m f of None \<Rightarrow> False | Some s \<Rightarrow> s \<noteq> erased_id c)
   \<and> valid_e c m e = (case sentinel_e m e of None \<Rightarrow> False | Some s \<Rightarrow> s \<noteq> erased_id c)
   \<and> erased_v c m v = map_option (\<lambda>s. s = erased_id c) (sentinel_v m v)
   \<and> erased_f c m f = map_option (\<lambda>s. s = erased_id c) (sentinel_f m f)
   \<and> erased_e c m e = map_option (\<lambda>s. s = erased_id c) (sentinel_e m e)"
proof -
  have rv: "\<not> array_valid (vertex_to_edge m) (v_id v) \<longrightarrow> \<not> valid_v c m v \<and> sentinel_v m v = None"
    by (simp add: valid_v_iff sentinel_v_range)
  have rf: "\<not> array_valid (faces m) (f_id f) \<longrightarrow> \<not> valid_f c m f \<and> sentinel_f m f = None"
    by (simp add: valid_f_iff sentinel_f_range)
  have re: "\<not> in_range_e m e \<longrightarrow> \<not> valid_e c m e \<and> sentinel_e m e = None"
    by (simp add: valid_e_iff sentinel_e_range)
  have ev: "erased_v c m v = Some True \<longrightarrow> \<not> valid_v c m v" by (simp add: valid_v_iff)
  have ef: "erased_f c m f = Some True \<longrightarrow> \<not> valid_f c m f" by (simp add: valid_f_iff)
  have ee: "erased_e c m e = Some True \<longrightarrow> \<not> valid_e c m e" by (simp add: valid_e_iff)
  show ?thesis
    using valid_v_iff [of c m v] valid_f_iff [of c m f] valid_e_iff [of c m e] rv rf re ev ef ee
      valid_v_sentinel [of c m v] valid_f_sentinel [of c m f] valid_e_sentinel [of c m e]
      erased_v_sentinel [of c m v] erased_f_sentinel [of c m f] erased_e_sentinel [of c m e]
    by blast
qed

theorem valid_iff_in_range_and_not_erased_witness:
  "erased_v ids32 erased_mesh (VertexId 2) = Some True \<and> \<not> valid_v ids32 erased_mesh (VertexId 2)
   \<and> erased_f ids32 erased_mesh (FaceId 0) = Some True \<and> \<not> valid_f ids32 erased_mesh (FaceId 0)
   \<and> erased_e ids32 erased_mesh (HalfedgeId (-2)) = Some True
   \<and> \<not> valid_e ids32 erased_mesh (HalfedgeId (-2))
   \<and> \<not> array_valid (vertex_to_edge erased_mesh) (v_id (VertexId 3))
   \<and> \<not> valid_v ids32 erased_mesh (VertexId 3) \<and> sentinel_v erased_mesh (VertexId 3) = None
   \<and> \<not> array_valid (faces erased_mesh) (f_id (FaceId 1))
   \<and> \<not> valid_f ids32 erased_mesh (FaceId 1) \<and> sentinel_f erased_mesh (FaceId 1) = None
   \<and> \<not> in_range_e erased_mesh (HalfedgeId (-4))
   \<and> \<not> valid_e ids32 erased_mesh (HalfedgeId (-4)) \<and> sentinel_e erased_mesh (HalfedgeId (-4)) = None
   \<and> valid_v ids32 erased_mesh (VertexId 1)"
proof -
  have h1: "erased_v ids32 erased_mesh (VertexId 2) = Some True"
    by (simp add: eval_defs)
  have h2: "erased_f ids32 erased_mesh (FaceId 0) = Some True"
    by (simp add: eval_defs)
  have h3: "erased_e ids32 erased_mesh (HalfedgeId (-2)) = Some True"
    by (simp add: eval_defs)
  have h4: "\<not> array_valid (vertex_to_edge erased_mesh) (v_id (VertexId 3))"
    by (simp add: eval_defs)
  have h5: "\<not> array_valid (faces erased_mesh) (f_id (FaceId 1))"
    by (simp add: eval_defs)
  have h6: "\<not> in_range_e erased_mesh (HalfedgeId (-4))"
    by (simp add: eval_defs)
  have h7: "array_valid (vertex_to_edge erased_mesh) (v_id (VertexId 1))
            \<and> erased_v ids32 erased_mesh (VertexId 1) = Some False"
    by (simp add: eval_defs)
  show ?thesis
    using h1 h2 h3 h4 h5 h6 h7
      valid_iff_in_range_and_not_erased [of ids32 erased_mesh "VertexId 2" "FaceId 0" "HalfedgeId (-2)"]
      valid_iff_in_range_and_not_erased [of ids32 erased_mesh "VertexId 3" "FaceId 1" "HalfedgeId (-4)"]
      valid_iff_in_range_and_not_erased [of ids32 erased_mesh "VertexId 1" "FaceId 1" "HalfedgeId (-4)"]
    by blast
qed

section \<open>The encoding of halfedges\<close>

lemma valid_f_range: "valid_f c m f \<Longrightarrow> 0 \<le> f_id f \<and> f_id f < int (length (faces m))"
  by (simp add: valid_f_def array_valid_def split: if_splits)

lemma corner_div: "0 \<le> (f::int) \<Longrightarrow> 0 \<le> i \<Longrightarrow> i < 3 \<Longrightarrow> c_div (3 * f + i) 3 = f"
  by (simp add: c_div_nonneg)

lemma halfedge_f_interior:
  assumes "valid_f c m f" "0 \<le> i" "i < 3"
  shows "halfedge_f c m f i = Some (HalfedgeId (3 * f_id f + i))"
    and "valid_e c m (HalfedgeId (3 * f_id f + i))"
    and "is_boundary_e c m (HalfedgeId (3 * f_id f + i)) = Some False"
    and "face c m (HalfedgeId (3 * f_id f + i)) = Some f"
proof -
  from assms have f0: "0 \<le> f_id f" by (simp add: valid_f_range)
  with assms have d: "c_div (3 * f_id f + i) 3 = f_id f" by (simp add: corner_div)
  from f0 assms have nn: "0 \<le> 3 * f_id f + i" by simp
  show "halfedge_f c m f i = Some (HalfedgeId (3 * f_id f + i))"
    using assms by (simp add: halfedge_f_def)
  show v: "valid_e c m (HalfedgeId (3 * f_id f + i))"
    using assms nn d by (simp add: valid_e_def)
  show "is_boundary_e c m (HalfedgeId (3 * f_id f + i)) = Some False"
    using v nn by (simp add: is_boundary_e_def)
  show "face c m (HalfedgeId (3 * f_id f + i)) = Some f"
    using v nn d by (simp add: face_def)
qed

lemma interior_decode:
  assumes "valid_e c m e" "0 \<le> e_id e"
  shows "halfedge_f c m (FaceId (e_id e div 3)) (e_id e mod 3) = Some e"
proof -
  from assms have "valid_f c m (FaceId (e_id e div 3))"
    by (simp add: valid_e_def c_div_nonneg)
  moreover have "3 * (e_id e div 3) + e_id e mod 3 = e_id e" by simp
  ultimately show ?thesis by (simp add: halfedge_f_def)
qed

lemma boundary_slot:
  assumes "valid_e c m e"
  shows "e_id e < 0 \<longleftrightarrow> (\<exists>b. array_valid (boundaries m) b \<and> e_id e = -1 - b)"
proof
  assume "e_id e < 0"
  with assms have "array_valid (boundaries m) (-1 - e_id e)"
    by (simp add: valid_e_def split: if_splits)
  then show "\<exists>b. array_valid (boundaries m) b \<and> e_id e = -1 - b"
    by (intro exI [of _ "-1 - e_id e"]) simp
next
  assume "\<exists>b. array_valid (boundaries m) b \<and> e_id e = -1 - b"
  then show "e_id e < 0" by (auto simp: array_valid_def)
qed

lemma live_slot_boundary:
  assumes "array_get (boundaries m) b = Some B" "v_id (b_src B) \<noteq> erased_id c"
  shows "valid_e c m (HalfedgeId (-1 - b))" "is_boundary_e c m (HalfedgeId (-1 - b)) = Some True"
proof -
  from assms have r: "array_valid (boundaries m) b" by (simp add: array_get_Some_iff)
  then have neg: "\<not> 0 \<le> -1 - b" by (simp add: array_valid_def)
  show v: "valid_e c m (HalfedgeId (-1 - b))"
    using assms r neg by (simp add: valid_e_def)
  show "is_boundary_e c m (HalfedgeId (-1 - b)) = Some True"
    using v neg by (simp add: is_boundary_e_def)
qed

text \<open>
  Claim C2. For a valid face \<open>f\<close> and a corner \<open>i\<close> in \<open>[0,3)\<close>, \<open>halfedge(f,i)\<close> is
  the halfedge with integer value \<open>3*f+i\<close>; it is valid, interior, and \<open>face\<close> gives \<open>f\<close>
  back. For a valid halfedge \<open>e\<close>, \<open>is_boundary(e)\<close> is the sign test \<open>e < 0\<close>; \<open>e\<close> is
  negative exactly when it is \<open>-1-b\<close> for an allocated boundary slot \<open>b\<close>, and a
  non-negative \<open>e\<close> is corner \<open>e mod 3\<close> of face \<open>e div 3\<close>; \<open>face(e)\<close> is
  \<open>FaceId(e/3)\<close> for a non-negative \<open>e\<close> and the invalid id for a negative one. Every
  live boundary slot \<open>b\<close> is the valid boundary halfedge \<open>-1-b\<close>.
\<close>

theorem halfedge_encoding:
  "(valid_f c m f \<and> 0 \<le> i \<and> i < 3 \<longrightarrow>
      halfedge_f c m f i = Some (HalfedgeId (3 * f_id f + i))
      \<and> valid_e c m (HalfedgeId (3 * f_id f + i))
      \<and> is_boundary_e c m (HalfedgeId (3 * f_id f + i)) = Some False
      \<and> face c m (HalfedgeId (3 * f_id f + i)) = Some f)
   \<and> (valid_e c m e \<longrightarrow>
      is_boundary_e c m e = Some (e_id e < 0)
      \<and> (e_id e < 0 \<longleftrightarrow> (\<exists>b. array_valid (boundaries m) b \<and> e_id e = -1 - b))
      \<and> (0 \<le> e_id e \<longrightarrow> halfedge_f c m (FaceId (e_id e div 3)) (e_id e mod 3) = Some e)
      \<and> face c m e = Some (if 0 \<le> e_id e then FaceId (c_div (e_id e) 3) else FaceId (invalid_id c))
      \<and> (e_id e < 0 \<longrightarrow> (\<exists>f'. face c m e = Some f' \<and> \<not> id_valid c (f_id f'))))
   \<and> (array_get (boundaries m) b = Some B \<and> v_id (b_src B) \<noteq> erased_id c \<longrightarrow>
      valid_e c m (HalfedgeId (-1 - b)) \<and> is_boundary_e c m (HalfedgeId (-1 - b)) = Some True)"
proof (intro conjI impI)
  assume "valid_f c m f \<and> 0 \<le> i \<and> i < 3"
  then have a: "valid_f c m f" "0 \<le> i" "i < 3" by simp_all
  show "halfedge_f c m f i = Some (HalfedgeId (3 * f_id f + i))"
    by (rule halfedge_f_interior [OF a])
  show "valid_e c m (HalfedgeId (3 * f_id f + i))"
    by (rule halfedge_f_interior [OF a])
  show "is_boundary_e c m (HalfedgeId (3 * f_id f + i)) = Some False"
    by (rule halfedge_f_interior [OF a])
  show "face c m (HalfedgeId (3 * f_id f + i)) = Some f"
    by (rule halfedge_f_interior [OF a])
next
  assume v: "valid_e c m e"
  show "is_boundary_e c m e = Some (e_id e < 0)"
    using v by (simp add: is_boundary_e_def)
  show "e_id e < 0 \<longleftrightarrow> (\<exists>b. array_valid (boundaries m) b \<and> e_id e = -1 - b)"
    by (rule boundary_slot [OF v])
  show "face c m e = Some (if 0 \<le> e_id e then FaceId (c_div (e_id e) 3) else FaceId (invalid_id c))"
    using v by (simp add: face_def)
  {
    assume "0 \<le> e_id e"
    with v show "halfedge_f c m (FaceId (e_id e div 3)) (e_id e mod 3) = Some e"
      by (rule interior_decode)
  }
  {
    assume "e_id e < 0"
    with v show "\<exists>f'. face c m e = Some f' \<and> \<not> id_valid c (f_id f')"
      by (simp add: face_def id_valid_def)
  }
next
  assume "array_get (boundaries m) b = Some B \<and> v_id (b_src B) \<noteq> erased_id c"
  then have a: "array_get (boundaries m) b = Some B" "v_id (b_src B) \<noteq> erased_id c" by simp_all
  show "valid_e c m (HalfedgeId (-1 - b))" by (rule live_slot_boundary [OF a])
  show "is_boundary_e c m (HalfedgeId (-1 - b)) = Some True" by (rule live_slot_boundary [OF a])
qed

theorem halfedge_encoding_witness:
  "valid_f ids32 triangle_mesh (FaceId 0)
   \<and> halfedge_f ids32 triangle_mesh (FaceId 0) 1 = Some (HalfedgeId 1)
   \<and> face ids32 triangle_mesh (HalfedgeId 1) = Some (FaceId 0)
   \<and> is_boundary_e ids32 triangle_mesh (HalfedgeId 1) = Some False
   \<and> valid_e ids32 triangle_mesh (HalfedgeId (-2))
   \<and> is_boundary_e ids32 triangle_mesh (HalfedgeId (-2)) = Some True
   \<and> face ids32 triangle_mesh (HalfedgeId (-2)) = Some (FaceId (- 2147483648))
   \<and> valid_e ids32 triangle_mesh (HalfedgeId 2)
   \<and> halfedge_f ids32 triangle_mesh (FaceId 0) 2 = Some (HalfedgeId 2)
   \<and> valid_e ids32 triangle_mesh (HalfedgeId (-3))"
proof -
  have vf: "valid_f ids32 triangle_mesh (FaceId 0) \<and> (0::int) \<le> 1 \<and> (1::int) < 3"
    by (simp add: eval_defs)
  have vb: "valid_e ids32 triangle_mesh (HalfedgeId (-2))"
    by (simp add: eval_defs)
  have vi: "valid_e ids32 triangle_mesh (HalfedgeId 2)"
    by (simp add: eval_defs)
  have slot: "array_get (boundaries triangle_mesh) 2 = Some (boundaries triangle_mesh ! 2)
              \<and> v_id (b_src (boundaries triangle_mesh ! 2)) \<noteq> erased_id ids32"
    by (simp add: eval_defs)
  have a: "halfedge_f ids32 triangle_mesh (FaceId 0) 1 = Some (HalfedgeId 1)
           \<and> face ids32 triangle_mesh (HalfedgeId 1) = Some (FaceId 0)
           \<and> is_boundary_e ids32 triangle_mesh (HalfedgeId 1) = Some False"
    using vf halfedge_encoding [of ids32 triangle_mesh "FaceId 0" 1] by simp
  have b: "is_boundary_e ids32 triangle_mesh (HalfedgeId (-2)) = Some True
           \<and> face ids32 triangle_mesh (HalfedgeId (-2)) = Some (FaceId (- 2147483648))"
    using vb halfedge_encoding [of ids32 triangle_mesh _ _ "HalfedgeId (-2)"]
    by (simp add: ids32_def)
  have c: "halfedge_f ids32 triangle_mesh (FaceId 0) 2 = Some (HalfedgeId 2)"
    using vi halfedge_encoding [of ids32 triangle_mesh _ _ "HalfedgeId 2"] by simp
  have d: "valid_e ids32 triangle_mesh (HalfedgeId (-3))"
    using slot halfedge_encoding [of ids32 triangle_mesh _ _ _ 2 "boundaries triangle_mesh ! 2"]
    by simp
  show ?thesis using vf vb vi a b c d by simp
qed

section \<open>Erasing a boundary halfedge\<close>

lemma unsafe_set_erased_e_Some:
  assumes "e_id b < 0" and "array_valid (boundaries m) (-1 - e_id b)"
  shows "unsafe_set_erased_e c m b =
     Some (m\<lparr>boundaries := (boundaries m)[nat (-1 - e_id b) :=
                (boundaries m ! nat (-1 - e_id b))\<lparr>b_src := VertexId (erased_id c),
                                                  b_next := erased_boundaries m\<rparr>],
            erased_boundaries := b, n_boundary_edges := n_boundary_edges m - 1\<rparr>)"
  using assms by (simp add: unsafe_set_erased_e_def array_get_def array_set_def)

text \<open>
  Claim C8. \<open>unsafe_set_erased\<close> on a boundary halfedge \<open>b\<close> (a negative id whose slot
  is allocated) writes the erased sentinel into the source vertex of the slot, points
  the slot's \<open>next\<close> at the previous head of the free list, makes \<open>b\<close> the new head, and
  decrements the count of live boundary edges by one. The slot's \<open>prev\<close> and \<open>reverse\<close>,
  every other boundary slot, the face array, the vertex-to-edge array, the other two
  counts and the sizes of the arrays stay as they were.
\<close>

theorem unsafe_set_erased_boundary_frame:
  assumes "e_id b < 0" and "array_valid (boundaries m) (-1 - e_id b)"
  shows "\<exists>m' B B'. unsafe_set_erased_e c m b = Some m'
     \<and> array_get (boundaries m) (-1 - e_id b) = Some B
     \<and> array_get (boundaries m') (-1 - e_id b) = Some B'
     \<and> b_src B' = VertexId (erased_id c)
     \<and> erased_e c m' b = Some True
     \<and> b_next B' = erased_boundaries m
     \<and> erased_boundaries m' = b
     \<and> n_boundary_edges m' = n_boundary_edges m - 1
     \<and> b_prev B' = b_prev B
     \<and> b_reverse B' = b_reverse B
     \<and> (\<forall>j. j \<noteq> -1 - e_id b \<longrightarrow> array_get (boundaries m') j = array_get (boundaries m) j)
     \<and> length (boundaries m') = length (boundaries m)
     \<and> faces m' = faces m
     \<and> vertex_to_edge m' = vertex_to_edge m
     \<and> n_vertices m' = n_vertices m
     \<and> n_faces m' = n_faces m
     \<and> TriangleTopology.more m' = TriangleTopology.more m"
proof -
  let ?k = "nat (-1 - e_id b)"
  let ?B = "boundaries m ! ?k"
  let ?B' = "?B\<lparr>b_src := VertexId (erased_id c), b_next := erased_boundaries m\<rparr>"
  let ?m' = "m\<lparr>boundaries := (boundaries m)[?k := ?B'], erased_boundaries := b,
               n_boundary_edges := n_boundary_edges m - 1\<rparr>"
  from assms(2) have k0: "0 \<le> -1 - e_id b" "-1 - e_id b < int (length (boundaries m))"
    by (simp_all add: array_valid_def)
  then have k: "?k < length (boundaries m)" "0 \<le> -1 - e_id b"
    by linarith+
  have s: "unsafe_set_erased_e c m b = Some ?m'"
    by (rule unsafe_set_erased_e_Some [OF assms])
  have g: "array_get (boundaries m) (-1 - e_id b) = Some ?B"
    using assms(2) by (simp add: array_get_def)
  have g': "array_get (boundaries ?m') (-1 - e_id b) = Some ?B'"
    using assms(2) k by (simp add: array_get_def array_valid_def)
  have er: "erased_e c ?m' b = Some True"
    using assms(1) g' by (simp add: erased_e_def)
  have other: "\<forall>j. j \<noteq> -1 - e_id b \<longrightarrow> array_get (boundaries ?m') j = array_get (boundaries m) j"
  proof (intro allI impI)
    fix j :: int
    assume ne: "j \<noteq> -1 - e_id b"
    show "array_get (boundaries ?m') j = array_get (boundaries m) j"
    proof (cases "array_valid (boundaries m) j")
      case True
      then have "nat j \<noteq> ?k" using ne k by (simp add: array_valid_def nat_eq_iff)
      then show ?thesis using True by (simp add: array_get_def array_valid_def)
    next
      case False
      then show ?thesis by (auto simp: array_get_def array_valid_def)
    qed
  qed
  show ?thesis
    apply (rule exI [of _ ?m'], rule exI [of _ ?B], rule exI [of _ ?B'])
    apply (intro conjI)
    apply (rule s)
    apply (rule g)
    apply (rule g')
    apply simp
    apply (rule er)
    apply simp
    apply simp
    apply simp
    apply simp
    apply simp
    apply (rule other)
    apply simp_all
    done
qed

theorem unsafe_set_erased_boundary_frame_witness:
  "e_id (HalfedgeId (-2)) < 0 \<and> array_valid (boundaries triangle_mesh) (-1 - e_id (HalfedgeId (-2)))
   \<and> (\<exists>m'. unsafe_set_erased_e ids32 triangle_mesh (HalfedgeId (-2)) = Some m'
       \<and> erased_boundaries m' = HalfedgeId (-2)
       \<and> n_boundary_edges m' = 2
       \<and> faces m' = faces triangle_mesh)"
proof -
  have h1: "e_id (HalfedgeId (-2)) < 0" by simp
  have h2: "array_valid (boundaries triangle_mesh) (-1 - e_id (HalfedgeId (-2)))"
    by (simp add: array_valid_def triangle_mesh_def)
  have n: "n_boundary_edges triangle_mesh - 1 = 2" by (simp add: triangle_mesh_def)
  from unsafe_set_erased_boundary_frame [OF h1 h2, of ids32] n
  show ?thesis using h1 h2 by metis
qed

section \<open>Registering a field\<close>

lemma add_field_Inr:
  assumes "add_field c ty d n i (fs, t, nfi) = (Inr h, fs', t', nfi')"
  shows "field fs' t' h = Inr (replicate (nat n) d)"
    and "field_type h = ty"
    and "field_id h \<notin> dom t"
    and "field_id h = (if i = invalid_id c then nfi else i)"
  using assms
  by (auto simp: add_field_def Let_def field_def Hashtable_get_def array_get_def array_valid_def
      UntypedArray_get_def UntypedArray_new_def nth_append split: if_splits)

lemma field_unregistered:
  "t (field_id h) = None \<Longrightarrow> field fs t h = Inl LookupError"
  by (simp add: field_def Hashtable_get_def)

lemma add_field_fresh:
  assumes "(if i = invalid_id c then nfi else i) \<notin> dom t"
  shows "\<exists>fs' t' nfi'. add_field c ty d n i (fs, t, nfi) =
           (Inr (FieldId (if i = invalid_id c then nfi else i) ty), fs', t', nfi')"
  using assms by (auto simp: add_field_def Let_def)

lemma add_vertex_field_size:
  assumes "add_vertex_field c ty d i m = (Inr h, m')"
  shows "vertex_field m' h = Inr (replicate (length (vertex_to_edge m)) d)"
proof -
  obtain r fs' t' nfi' where a: "add_field c ty d (int (length (vertex_to_edge m))) i
             (vertex_fields m, id_to_vertex_field m, next_field_id m) = (r, fs', t', nfi')"
    by (metis prod_cases4)
  with assms have r: "r = Inr h"
    and m': "m' = m\<lparr>vertex_fields := fs', id_to_vertex_field := t', next_field_id := nfi'\<rparr>"
    by (simp_all add: add_vertex_field_def)
  from add_field_Inr(1) [OF a [unfolded r]] show ?thesis
    by (simp add: vertex_field_def m')
qed

lemma add_face_field_size:
  assumes "add_face_field c ty d i m = (Inr h, m')"
  shows "face_field m' h = Inr (replicate (length (faces m)) d)"
proof -
  obtain r fs' t' nfi' where a: "add_field c ty d (int (length (faces m))) i
             (face_fields m, id_to_face_field m, next_field_id m) = (r, fs', t', nfi')"
    by (metis prod_cases4)
  with assms have r: "r = Inr h"
    and m': "m' = m\<lparr>face_fields := fs', id_to_face_field := t', next_field_id := nfi'\<rparr>"
    by (simp_all add: add_face_field_def)
  from add_field_Inr(1) [OF a [unfolded r]] show ?thesis
    by (simp add: face_field_def m')
qed

lemma add_halfedge_field_size:
  assumes "add_halfedge_field c ty d i m = (Inr h, m')"
  shows "halfedge_field m' h = Inr (replicate (3 * length (faces m)) d)"
    and "faces m' = faces m"
proof -
  obtain r fs' t' nfi' where a: "add_field c ty d (int (length (faces m)) * 3) i
             (halfedge_fields m, id_to_halfedge_field m, next_field_id m) = (r, fs', t', nfi')"
    by (metis prod_cases4)
  with assms have r: "r = Inr h"
    and m': "m' = m\<lparr>halfedge_fields := fs', id_to_halfedge_field := t', next_field_id := nfi'\<rparr>"
    by (simp_all add: add_halfedge_field_def)
  have "nat (int (length (faces m)) * 3) = 3 * length (faces m)" by (simp add: nat_mult_distrib)
  with add_field_Inr(1) [OF a [unfolded r]] show "halfedge_field m' h = Inr (replicate (3 * length (faces m)) d)"
    by (simp add: halfedge_field_def m')
  show "faces m' = faces m" by (simp add: m')
qed


lemma interior_index_range:
  assumes "valid_e c m e"
  shows "0 \<le> e_id e \<and> e_id e < 3 * int (length (faces m)) \<longleftrightarrow> 0 \<le> e_id e"
proof (cases "0 \<le> e_id e")
  case True
  with assms have "valid_f c m (FaceId (e_id e div 3))" by (simp add: valid_e_def c_div_nonneg)
  then have "e_id e div 3 < int (length (faces m))" using valid_f_range by fastforce
  then have "e_id e < 3 * int (length (faces m))" by linarith
  with True show ?thesis by simp
next
  case False
  then show ?thesis by simp
qed

text \<open>
  Claim C7. A field registered over vertices, faces or halfedges is backed by an array
  whose size is the capacity of its kind at registration: \<open>vertex_to_edge.size()\<close>,
  \<open>faces.size()\<close>, or \<open>3 * faces.size()\<close>. An index of a halfedge field is therefore
  valid exactly for the ids \<open>0 \<le> e < 3 * faces.size()\<close>: among the valid halfedges the
  interior ones have an entry and the boundary ones have none. Access through a handle
  that the table does not hold fails with a lookup error.
\<close>

theorem field_registration:
  "(add_vertex_field c ty d i m = (Inr h, m') \<longrightarrow>
      (\<exists>xs. vertex_field m' h = Inr xs \<and> int (length xs) = int (length (vertex_to_edge m))))
   \<and> (add_face_field c ty d i m = (Inr h, m') \<longrightarrow>
      (\<exists>xs. face_field m' h = Inr xs \<and> int (length xs) = int (length (faces m))))
   \<and> (add_halfedge_field c ty d i m = (Inr h, m') \<longrightarrow>
      (\<exists>xs. halfedge_field m' h = Inr xs \<and> int (length xs) = 3 * int (length (faces m))
         \<and> (\<forall>e. Field_valid xs (e_id e) \<longleftrightarrow> 0 \<le> e_id e \<and> e_id e < 3 * int (length (faces m')))
         \<and> (\<forall>e. valid_e c m' e \<longrightarrow>
               (Field_valid xs (e_id e) \<longleftrightarrow> is_boundary_e c m' e = Some False))))
   \<and> (id_to_vertex_field m (field_id h) = None \<longrightarrow> vertex_field m h = Inl LookupError)
   \<and> (id_to_face_field m (field_id h) = None \<longrightarrow> face_field m h = Inl LookupError)
   \<and> (id_to_halfedge_field m (field_id h) = None \<longrightarrow> halfedge_field m h = Inl LookupError)"
proof (intro conjI impI)
  assume "add_vertex_field c ty d i m = (Inr h, m')"
  from add_vertex_field_size [OF this]
  show "\<exists>xs. vertex_field m' h = Inr xs \<and> int (length xs) = int (length (vertex_to_edge m))"
    by simp
next
  assume "add_face_field c ty d i m = (Inr h, m')"
  from add_face_field_size [OF this]
  show "\<exists>xs. face_field m' h = Inr xs \<and> int (length xs) = int (length (faces m))"
    by simp
next
  assume a: "add_halfedge_field c ty d i m = (Inr h, m')"
  let ?xs = "replicate (3 * length (faces m)) d"
  have f: "halfedge_field m' h = Inr ?xs" and fm: "faces m' = faces m"
    using add_halfedge_field_size [OF a] by simp_all
  have r: "\<forall>e. Field_valid ?xs (e_id e) \<longleftrightarrow> 0 \<le> e_id e \<and> e_id e < 3 * int (length (faces m'))"
    by (simp add: Field_valid_def array_valid_def fm)
  have b: "\<forall>e. valid_e c m' e \<longrightarrow> (Field_valid ?xs (e_id e) \<longleftrightarrow> is_boundary_e c m' e = Some False)"
  proof (intro allI impI)
    fix e assume v: "valid_e c m' e"
    have "Field_valid ?xs (e_id e) \<longleftrightarrow> 0 \<le> e_id e"
      using r interior_index_range [OF v] by simp
    also have "\<dots> \<longleftrightarrow> is_boundary_e c m' e = Some False"
      using v by (auto simp: is_boundary_e_def)
    finally show "Field_valid ?xs (e_id e) \<longleftrightarrow> is_boundary_e c m' e = Some False" .
  qed
  show "\<exists>xs. halfedge_field m' h = Inr xs \<and> int (length xs) = 3 * int (length (faces m))
         \<and> (\<forall>e. Field_valid xs (e_id e) \<longleftrightarrow> 0 \<le> e_id e \<and> e_id e < 3 * int (length (faces m')))
         \<and> (\<forall>e. valid_e c m' e \<longrightarrow>
               (Field_valid xs (e_id e) \<longleftrightarrow> is_boundary_e c m' e = Some False))"
    using f r b by (intro exI [of _ ?xs]) simp
next
  assume "id_to_vertex_field m (field_id h) = None"
  then show "vertex_field m h = Inl LookupError"
    by (simp add: vertex_field_def field_unregistered)
next
  assume "id_to_face_field m (field_id h) = None"
  then show "face_field m h = Inl LookupError"
    by (simp add: face_field_def field_unregistered)
next
  assume "id_to_halfedge_field m (field_id h) = None"
  then show "halfedge_field m h = Inl LookupError"
    by (simp add: halfedge_field_def field_unregistered)
qed

theorem field_registration_witness:
  "(\<exists>m'. add_vertex_field ids32 ''int'' 0 (invalid_id ids32) mutable_triangle_mesh
            = (Inr (FieldId 0 ''int''), m')
      \<and> (\<exists>xs. vertex_field m' (FieldId 0 ''int'') = Inr xs \<and> int (length xs) = 3))
   \<and> (\<exists>m'. add_face_field ids32 ''int'' 0 7 mutable_triangle_mesh = (Inr (FieldId 7 ''int''), m')
      \<and> (\<exists>xs. face_field m' (FieldId 7 ''int'') = Inr xs \<and> int (length xs) = 1))
   \<and> (\<exists>m'. add_halfedge_field ids32 ''int'' 0 (invalid_id ids32) mutable_triangle_mesh
            = (Inr (FieldId 0 ''int''), m')
      \<and> (\<exists>xs. halfedge_field m' (FieldId 0 ''int'') = Inr xs \<and> int (length xs) = 3
            \<and> valid_e ids32 m' (HalfedgeId (-2)) \<and> \<not> Field_valid xs (e_id (HalfedgeId (-2)))
            \<and> valid_e ids32 m' (HalfedgeId 2) \<and> Field_valid xs (e_id (HalfedgeId 2))))
   \<and> id_to_vertex_field mutable_triangle_mesh (field_id (FieldId 5 ''int'')) = None
   \<and> vertex_field mutable_triangle_mesh (FieldId 5 ''int'') = Inl LookupError
   \<and> face_field mutable_triangle_mesh (FieldId 5 ''int'') = Inl LookupError
   \<and> halfedge_field mutable_triangle_mesh (FieldId 5 ''int'') = Inl LookupError"
proof -
  let ?M = mutable_triangle_mesh
  let ?h = "FieldId 0 ''int''"
  let ?av = "add_vertex_field ids32 ''int'' 0 (invalid_id ids32) ?M"
  let ?af = "add_face_field ids32 ''int'' 0 7 ?M"
  let ?ah = "add_halfedge_field ids32 ''int'' 0 (invalid_id ids32) ?M"
  have sz: "length (vertex_to_edge ?M) = 3" "length (faces ?M) = 1"
    by (simp_all add: mutable_triangle_mesh_def triangle_mesh_def)
  have av: "?av = (Inr ?h, snd ?av)"
    by (simp add: add_vertex_field_def add_field_def mutable_triangle_mesh_def)
  have af: "?af = (Inr (FieldId 7 ''int''), snd ?af)"
    by (simp add: add_face_field_def add_field_def mutable_triangle_mesh_def ids32_def)
  have ah: "?ah = (Inr ?h, snd ?ah)"
    by (simp add: add_halfedge_field_def add_field_def mutable_triangle_mesh_def)
  have un: "id_to_vertex_field ?M (field_id (FieldId 5 ''int'')) = None"
    "id_to_face_field ?M (field_id (FieldId 5 ''int'')) = None"
    "id_to_halfedge_field ?M (field_id (FieldId 5 ''int'')) = None"
    by (simp_all add: mutable_triangle_mesh_def)
  have vb: "valid_e ids32 (snd ?ah) (HalfedgeId (-2))" "valid_e ids32 (snd ?ah) (HalfedgeId 2)"
    by (simp_all add: add_halfedge_field_def add_field_def mutable_triangle_mesh_def eval_defs)
  have ib: "is_boundary_e ids32 (snd ?ah) (HalfedgeId (-2)) = Some True"
    "is_boundary_e ids32 (snd ?ah) (HalfedgeId 2) = Some False"
    using vb by (simp_all add: is_boundary_e_def)
  note t1 = field_registration [of ids32 "''int''" 0 "invalid_id ids32" ?M ?h "snd ?av"]
  note t2 = field_registration [of ids32 "''int''" 0 7 ?M "FieldId 7 ''int''" "snd ?af"]
  note t3 = field_registration [of ids32 "''int''" 0 "invalid_id ids32" ?M ?h "snd ?ah"]
  note t4 = field_registration [of _ _ _ _ ?M "FieldId 5 ''int''"]
  have c1: "\<exists>m'. ?av = (Inr ?h, m')
      \<and> (\<exists>xs. vertex_field m' ?h = Inr xs \<and> int (length xs) = 3)"
    using t1 av sz by (intro exI [of _ "snd ?av"]) simp
  have c2: "\<exists>m'. ?af = (Inr (FieldId 7 ''int''), m')
      \<and> (\<exists>xs. face_field m' (FieldId 7 ''int'') = Inr xs \<and> int (length xs) = 1)"
    using t2 af sz by (intro exI [of _ "snd ?af"]) simp
  have c3: "\<exists>m'. ?ah = (Inr ?h, m')
      \<and> (\<exists>xs. halfedge_field m' ?h = Inr xs \<and> int (length xs) = 3
            \<and> valid_e ids32 m' (HalfedgeId (-2)) \<and> \<not> Field_valid xs (e_id (HalfedgeId (-2)))
            \<and> valid_e ids32 m' (HalfedgeId 2) \<and> Field_valid xs (e_id (HalfedgeId 2)))"
  proof -
    from t3 ah obtain xs where x: "halfedge_field (snd ?ah) ?h = Inr xs"
      "int (length xs) = 3 * int (length (faces ?M))"
      "\<forall>e. valid_e ids32 (snd ?ah) e \<longrightarrow>
               (Field_valid xs (e_id e) \<longleftrightarrow> is_boundary_e ids32 (snd ?ah) e = Some False)"
      by auto
    from x(3) vb ib have "\<not> Field_valid xs (e_id (HalfedgeId (-2)))" "Field_valid xs (e_id (HalfedgeId 2))"
      by auto
    with x(1,2) vb sz ah show ?thesis
      by (intro exI [of _ "snd ?ah"] conjI exI [of _ xs]) simp_all
  qed
  have c4: "vertex_field ?M (FieldId 5 ''int'') = Inl LookupError"
    "face_field ?M (FieldId 5 ''int'') = Inl LookupError"
    "halfedge_field ?M (FieldId 5 ''int'') = Inl LookupError"
    using t4 un by simp_all
  show ?thesis using c1 c2 c3 c4 un(1) by simp
qed

section \<open>The walk around a vertex\<close>

lemma valid_e_range:
  "valid_e c m e \<Longrightarrow> - int (length (boundaries m)) \<le> e_id e \<and> e_id e < int (length (faces m)) * 3"
proof (cases "0 \<le> e_id e")
  case True
  assume "valid_e c m e"
  with True have "valid_f c m (FaceId (e_id e div 3))" by (simp add: valid_e_def c_div_nonneg)
  then have "e_id e div 3 < int (length (faces m))" using valid_f_range by fastforce
  then have "e_id e < int (length (faces m)) * 3" by linarith
  with True show ?thesis by linarith
next
  case False
  assume "valid_e c m e"
  with False have "array_valid (boundaries m) (-1 - e_id e)"
    by (simp add: valid_e_def split: if_splits)
  with False show ?thesis by (simp add: array_valid_def)
qed

lemma valid_e_in_all: "valid_e c m e \<Longrightarrow> e \<in> set (all_halfedges m)"
proof -
  assume "valid_e c m e"
  from valid_e_range [OF this]
  have "e_id e \<in> set [- int (length (boundaries m)) .. int (length (faces m)) * 3 - 1]" by simp
  then have "HalfedgeId (e_id e) \<in> set (all_halfedges m)"
    unfolding all_halfedges_def by (simp only: set_map image_eqI)
  then show ?thesis by simp
qed

lemma valid_v_in_all: "valid_v c m v \<Longrightarrow> v \<in> set (all_vertices m)"
proof -
  assume "valid_v c m v"
  then have "array_valid (vertex_to_edge m) (v_id v)" by (simp add: valid_v_def split: if_splits)
  then have "v_id v \<in> set [0 .. int (length (vertex_to_edge m)) - 1]"
    by (simp add: array_valid_def)
  then have "VertexId (v_id v) \<in> set (all_vertices m)"
    unfolding all_vertices_def by (simp only: set_map image_eqI)
  then show ?thesis by simp
qed

lemma finite_outgoing_halfedges: "finite (outgoing_halfedges c m v)"
proof -
  have "outgoing_halfedges c m v \<subseteq> set (all_halfedges m)"
    by (auto simp: outgoing_halfedges_def valid_e_in_all)
  then show ?thesis by (rule finite_subset) simp
qed


lemma linkedD:
  assumes "halfedges_linked c m" "valid_e c m e"
  shows "\<exists>p r w. prev c m e = Some p \<and> valid_e c m p \<and> next c m p = Some e
     \<and> reverse c m e = Some r \<and> valid_e c m r \<and> reverse c m r = Some e
     \<and> dst c m e = Some w \<and> src c m r = Some w"
proof -
  from assms(2) have "e \<in> set (all_halfedges m)" by (rule valid_e_in_all)
  with assms have a:
    "(case prev c m e of None \<Rightarrow> False | Some p \<Rightarrow> valid_e c m p \<and> next c m p = Some e)"
    and b: "(case reverse c m e of None \<Rightarrow> False
      | Some r \<Rightarrow> valid_e c m r \<and> reverse c m r = Some e
          \<and> (case dst c m e of None \<Rightarrow> False | Some w \<Rightarrow> src c m r = Some w))"
    unfolding halfedges_linked_def by blast+
  from a have "\<exists>p. prev c m e = Some p \<and> valid_e c m p \<and> next c m p = Some e"
    by (cases "prev c m e") simp_all
  moreover from b have "\<exists>r w. reverse c m e = Some r \<and> valid_e c m r \<and> reverse c m r = Some e
     \<and> dst c m e = Some w \<and> src c m r = Some w"
    by (cases "reverse c m e"; cases "dst c m e") simp_all
  ultimately show ?thesis by blast
qed

lemma dst_prev_interior:
  assumes "valid_e c m e" "0 \<le> e_id e" "prev c m e = Some p" "valid_e c m p"
  shows "dst c m p = src c m e"
proof -
  let ?x = "e_id e"
  from assms have p: "e_id p = ?x + (if ?x mod 3 = 0 then 2 else -1)"
    by (auto simp: prev_def)
  with assms(2) have p0: "0 \<le> e_id p" by presburger
  have d: "e_id p div 3 = ?x div 3" using p assms(2) by presburger
  have i: "(if e_id p - 3 * (?x div 3) = 2 then 0 else e_id p - 3 * (?x div 3) + 1) = ?x - 3 * (?x div 3)"
    using p assms(2) by presburger
  show ?thesis
    using assms(1,2,4) p0 d i by (simp add: dst_def src_def c_div_nonneg Let_def)
qed

lemma dst_prev_boundary:
  assumes "valid_e c m e" "e_id e < 0" "prev c m e = Some p" "valid_e c m p" "next c m p = Some e"
  shows "dst c m p = src c m e"
proof -
  have neg: "e_id p < 0"
  proof (rule ccontr)
    assume n: "\<not> e_id p < 0"
    with assms(4,5) have "e_id e = e_id p + (if e_id p mod 3 = 2 then -2 else 1)"
      by (auto simp: next_def)
    with n have "0 \<le> e_id e" by presburger
    with assms(2) show False by simp
  qed
  with assms(4,5) obtain B where B: "array_get (boundaries m) (-1 - e_id p) = Some B" "b_next B = e"
    by (auto simp: next_def split: if_splits)
  show ?thesis
    using assms(1,2,4) neg B by (simp add: dst_def src_def) (cases "array_get (boundaries m) (-1 - e_id e)"; simp)
qed

lemma dst_prev:
  assumes "valid_e c m e" "prev c m e = Some p" "valid_e c m p" "next c m p = Some e"
  shows "dst c m p = src c m e"
  using assms dst_prev_interior dst_prev_boundary by (cases "0 \<le> e_id e") (simp_all add: not_le)

lemma left_step:
  assumes "halfedges_linked c m" "valid_e c m e"
  shows "\<exists>e' w. left c m e = Some e' \<and> valid_e c m e' \<and> src c m e = Some w \<and> src c m e' = Some w"
proof -
  from linkedD [OF assms] obtain p where p: "prev c m e = Some p" "valid_e c m p" "next c m p = Some e"
    by blast
  from linkedD [OF assms(1) p(2)] obtain r w where r: "reverse c m p = Some r" "valid_e c m r"
    "dst c m p = Some w" "src c m r = Some w"
    by blast
  have "src c m e = Some w" using dst_prev [OF assms(2) p] r(3) by simp
  moreover have "left c m e = Some r" using p r by (simp add: left_def)
  ultimately show ?thesis using r(2,4) by blast
qed

lemma left_inj:
  assumes "halfedges_linked c m" "valid_e c m e1" "valid_e c m e2"
    "left c m e1 = Some r" "left c m e2 = Some r"
  shows "e1 = e2"
proof -
  from linkedD [OF assms(1,2)] obtain p1 where
    p1: "prev c m e1 = Some p1" "valid_e c m p1" "next c m p1 = Some e1"
    by blast
  from linkedD [OF assms(1,3)] obtain p2 where
    p2: "prev c m e2 = Some p2" "valid_e c m p2" "next c m p2 = Some e2"
    by blast
  from assms(4) p1 have r1: "reverse c m p1 = Some r" by (simp add: left_def)
  from assms(5) p2 have r2: "reverse c m p2 = Some r" by (simp add: left_def)
  from linkedD [OF assms(1) p1(2)] r1 have "reverse c m r = Some p1" by auto
  moreover from linkedD [OF assms(1) p2(2)] r2 have "reverse c m r = Some p2" by auto
  ultimately have "p1 = p2" by simp
  with p1(3) p2(3) show ?thesis by simp
qed


lemma left_chain_snoc:
  assumes "left_chain c m acc" "acc \<noteq> []" "left c m (last acc) = Some e"
  shows "left_chain c m (acc @ [e])"
  unfolding left_chain_def
proof (intro allI impI)
  fix i assume i: "Suc i < length (acc @ [e])"
  show "left c m ((acc @ [e]) ! i) = Some ((acc @ [e]) ! Suc i)"
  proof (cases "Suc i < length acc")
    case True
    with assms(1) show ?thesis by (simp add: left_chain_def nth_append)
  next
    case False
    with i have eq: "Suc i = length acc" by simp
    then have "i = length acc - 1" by simp
    then have "acc ! i = last acc" using last_conv_nth [OF assms(2)] by simp
    with eq assms(3) show ?thesis by (simp add: nth_append)
  qed
qed

lemma left_chain_fresh:
  assumes linked: "halfedges_linked c m"
    and acc: "acc \<noteq> []" "left_chain c m acc" "distinct acc" "\<forall>a \<in> set acc. valid_e c m a"
    and e: "left c m (last acc) = Some e" "e \<noteq> hd acc"
  shows "e \<notin> set acc"
proof
  assume "e \<in> set acc"
  then obtain j where j: "j < length acc" "acc ! j = e" by (auto simp: in_set_conv_nth)
  have "j \<noteq> 0"
  proof
    assume "j = 0"
    with j(2) acc(1) have "e = hd acc" by (simp add: hd_conv_nth)
    with e(2) show False by simp
  qed
  then obtain k where k: "j = Suc k" by (cases j) simp_all
  from acc(2) j k have "left c m (acc ! k) = Some e" by (simp add: left_chain_def)
  moreover have "valid_e c m (acc ! k)" "valid_e c m (last acc)"
    using acc(1,4) j k by simp_all
  ultimately have "acc ! k = last acc" using left_inj [OF linked] e(1) by blast
  then have "acc ! k = acc ! (length acc - 1)" using acc(1) by (simp add: last_conv_nth)
  then have "k = length acc - 1" using acc(3) j k by (simp add: nth_eq_iff_index_eq)
  with j k show False by simp
qed

lemma for_outgoing_loop:
  assumes linked: "halfedges_linked c m"
    and "acc \<noteq> []" "hd acc = e0" "left_chain c m acc" "distinct acc"
    and "set acc \<subseteq> outgoing_halfedges c m v" "left c m (last acc) = Some e"
  shows "\<exists>es. for_outgoing c m \<lparr>it_e = e, it_first = False\<rparr> \<lparr>it_e = e0, it_first = b\<rparr> acc = Some es
           \<and> es \<noteq> [] \<and> hd es = e0 \<and> left_chain c m es \<and> distinct es
           \<and> set es \<subseteq> outgoing_halfedges c m v \<and> left c m (last es) = Some e0"
  using assms(2-)
proof (induction "card (outgoing_halfedges c m v - set acc)" arbitrary: acc e rule: less_induct)
  case less
  let ?S = "outgoing_halfedges c m v"
  show ?case
  proof (cases "e = e0")
    case True
    have "for_outgoing c m \<lparr>it_e = e, it_first = False\<rparr> \<lparr>it_e = e0, it_first = b\<rparr> acc = Some acc"
      using True by (subst for_outgoing.simps) (simp add: Outgoing_neq_def)
    with less.prems True show ?thesis by simp
  next
    case False
    have lastS: "last acc \<in> ?S" using less.prems(1,5) by auto
    then have vl: "valid_e c m (last acc)" and sl: "src c m (last acc) = Some v"
      by (simp_all add: outgoing_halfedges_def)
    from left_step [OF linked vl] less.prems(6) sl have eS: "e \<in> ?S"
      by (auto simp: outgoing_halfedges_def)
    then have ve: "valid_e c m e" by (simp add: outgoing_halfedges_def)
    have allv: "\<forall>a \<in> set acc. valid_e c m a"
      using less.prems(5) by (auto simp: outgoing_halfedges_def)
    have fresh: "e \<notin> set acc"
      using left_chain_fresh [OF linked less.prems(1,3,4) allv less.prems(6)] False less.prems(2)
      by simp
    from left_step [OF linked ve] obtain e' where e': "left c m e = Some e'" by blast
    have step: "for_outgoing c m \<lparr>it_e = e, it_first = False\<rparr> \<lparr>it_e = e0, it_first = b\<rparr> acc
        = for_outgoing c m \<lparr>it_e = e', it_first = False\<rparr> \<lparr>it_e = e0, it_first = b\<rparr> (acc @ [e])"
      using False e'
      by (subst for_outgoing.simps) (simp add: Outgoing_neq_def Outgoing_incr_def Outgoing_deref_def)
    have d1: "?S - set (acc @ [e]) = (?S - set acc) - {e}" by auto
    have d2: "e \<in> ?S - set acc" using eS fresh by simp
    have d3: "finite (?S - set acc)" using finite_outgoing_halfedges by simp
    have dec: "card (?S - set (acc @ [e])) < card (?S - set acc)"
      unfolding d1 by (rule card_Diff1_less [OF d3 d2])
    have "\<exists>es. for_outgoing c m \<lparr>it_e = e', it_first = False\<rparr> \<lparr>it_e = e0, it_first = b\<rparr> (acc @ [e]) = Some es
           \<and> es \<noteq> [] \<and> hd es = e0 \<and> left_chain c m es \<and> distinct es
           \<and> set es \<subseteq> ?S \<and> left c m (last es) = Some e0"
    proof (rule less.hyps [OF dec])
      show "acc @ [e] \<noteq> []" by simp
      show "hd (acc @ [e]) = e0" using less.prems(1,2) by simp
      show "left_chain c m (acc @ [e])"
        by (rule left_chain_snoc [OF less.prems(3,1,6)])
      show "distinct (acc @ [e])" using less.prems(4) fresh by simp
      show "set (acc @ [e]) \<subseteq> ?S" using less.prems(5) eS by simp
      show "left c m (last (acc @ [e])) = Some e'" using e' by simp
    qed
    with step show ?thesis by simp
  qed
qed

lemma for_outgoing_start:
  assumes linked: "halfedges_linked c m" and e0: "valid_e c m e0" "src c m e0 = Some v"
  shows "\<exists>es. for_outgoing c m \<lparr>it_e = e0, it_first = True\<rparr> \<lparr>it_e = e0, it_first = True\<rparr> [] = Some es
           \<and> es \<noteq> [] \<and> hd es = e0 \<and> left_chain c m es \<and> distinct es
           \<and> set es \<subseteq> outgoing_halfedges c m v \<and> left c m (last es) = Some e0"
proof -
  from left_step [OF linked e0(1)] obtain e1 where e1: "left c m e0 = Some e1" by blast
  have step: "for_outgoing c m \<lparr>it_e = e0, it_first = True\<rparr> \<lparr>it_e = e0, it_first = True\<rparr> []
      = for_outgoing c m \<lparr>it_e = e1, it_first = False\<rparr> \<lparr>it_e = e0, it_first = True\<rparr> [e0]"
    using e1 by (subst for_outgoing.simps) (simp add: Outgoing_neq_def Outgoing_incr_def Outgoing_deref_def)
  have "\<exists>es. for_outgoing c m \<lparr>it_e = e1, it_first = False\<rparr> \<lparr>it_e = e0, it_first = True\<rparr> [e0] = Some es
           \<and> es \<noteq> [] \<and> hd es = e0 \<and> left_chain c m es \<and> distinct es
           \<and> set es \<subseteq> outgoing_halfedges c m v \<and> left c m (last es) = Some e0"
  proof (rule for_outgoing_loop [OF linked])
    show "[e0] \<noteq> []" by simp
    show "hd [e0] = e0" by simp
    show "left_chain c m [e0]" by (simp add: left_chain_def)
    show "distinct [e0]" by simp
    show "set [e0] \<subseteq> outgoing_halfedges c m v" using e0 by (simp add: outgoing_halfedges_def)
    show "left c m (last [e0]) = Some e1" using e1 by simp
  qed
  with step show ?thesis by simp
qed

lemma left_orbit_closed:
  assumes "left_chain c m es" "es \<noteq> []" "left c m (last es) = Some (hd es)"
  shows "e \<in> set es \<Longrightarrow> set (left_orbit c m n e) \<subseteq> set es"
proof (induction n arbitrary: e)
  case 0
  show ?case by simp
next
  case (Suc n)
  from Suc.prems obtain i where i: "i < length es" "es ! i = e" by (auto simp: in_set_conv_nth)
  have "\<exists>e'. left c m e = Some e' \<and> e' \<in> set es"
  proof (cases "Suc i < length es")
    case True
    with assms(1) i have "left c m e = Some (es ! Suc i)" by (auto simp: left_chain_def)
    with True show ?thesis by simp
  next
    case False
    with i(1) have "i = length es - 1" by simp
    with i(2) have "e = last es" using last_conv_nth [OF assms(2)] by simp
    with assms(2,3) show ?thesis by simp
  qed
  then obtain e' where e': "left c m e = Some e'" "e' \<in> set es" by blast
  from Suc.IH [OF e'(2)] Suc.prems e'(1) show ?case by simp
qed

lemma outgoing_walk_aux:
  assumes "locally_manifold c m" and "valid_v c m v"
  shows "\<exists>es. outgoing c m v = Some es
           \<and> distinct es
           \<and> set es = outgoing_halfedges c m v
           \<and> length es = card (outgoing_halfedges c m v)
           \<and> left_chain c m es
           \<and> (es \<noteq> [] \<longrightarrow> halfedge_v c m v = Some (hd es) \<and> left c m (last es) = Some (hd es))
           \<and> (isolated c m v = Some True \<longrightarrow> es = [])"
proof -
  let ?S = "outgoing_halfedges c m v"
  from assms have linked: "halfedges_linked c m" and man: "manifold_at c m v"
    by (auto simp: locally_manifold_def valid_v_in_all)
  from man obtain e0 where e0: "halfedge_v c m v = Some e0"
    by (cases "halfedge_v c m v") (simp_all add: manifold_at_def)
  have iso: "isolated c m v = Some (\<not> id_valid c (e_id e0))"
    using assms(2) e0 by (simp add: isolated_def)
  show ?thesis
  proof (cases "id_valid c (e_id e0)")
    case True
    with man e0 have v0: "valid_e c m e0" and s0: "src c m e0 = Some v"
      and conn: "\<forall>e \<in> set (all_halfedges m). valid_e c m e \<and> src c m e = Some v \<longrightarrow>
                     e \<in> set (left_orbit c m (length (all_halfedges m)) e0)"
      by (simp_all add: manifold_at_def)
    from for_outgoing_start [OF linked v0 s0] obtain es where es:
      "for_outgoing c m \<lparr>it_e = e0, it_first = True\<rparr> \<lparr>it_e = e0, it_first = True\<rparr> [] = Some es"
      "es \<noteq> []" "hd es = e0" "left_chain c m es" "distinct es" "set es \<subseteq> ?S"
      "left c m (last es) = Some e0"
      by blast
    have out: "outgoing c m v = Some es"
      using e0 True es(1) by (simp add: outgoing_def)
    have "?S \<subseteq> set es"
    proof
      fix e assume e: "e \<in> ?S"
      then have "valid_e c m e" "src c m e = Some v" by (simp_all add: outgoing_halfedges_def)
      with conn have "e \<in> set (left_orbit c m (length (all_halfedges m)) e0)"
        using valid_e_in_all by blast
      moreover have "e0 \<in> set es" using es(2,3) by (metis hd_in_set)
      then have "set (left_orbit c m (length (all_halfedges m)) e0) \<subseteq> set es"
        using left_orbit_closed [OF es(4,2)] es(3,7) by simp
      ultimately show "e \<in> set es" by blast
    qed
    with es(6) have seq: "set es = ?S" by blast
    have len: "length es = card ?S" using es(5) seq distinct_card by fastforce
    show ?thesis
      using out es(2-5,7) seq len e0 iso True by (intro exI [of _ es]) simp
  next
    case False
    have out: "outgoing c m v = Some []"
      using e0 False by (simp add: outgoing_def) (subst for_outgoing.simps, simp add: Outgoing_neq_def)
    from man e0 False have "\<forall>e \<in> set (all_halfedges m). valid_e c m e \<longrightarrow> src c m e \<noteq> Some v"
      by (simp add: manifold_at_def)
    then have "?S = {}" using valid_e_in_all by (auto simp: outgoing_halfedges_def)
    with out show ?thesis by (intro exI [of _ "[]"]) (simp add: left_chain_def)
  qed
qed

text \<open>
  Claim C9. For a valid vertex \<open>v\<close> of a locally manifold mesh the walk \<open>outgoing(v)\<close>
  returns: it starts at \<open>halfedge(v)\<close>, each of its elements is \<open>left\<close> of the one before,
  \<open>left\<close> of its last element is its first, no halfedge occurs twice, and its elements
  are exactly the valid halfedges with source \<open>v\<close>. Its length is the number of those
  halfedges, the degree of \<open>v\<close>. For an isolated vertex the walk is empty.
\<close>

theorem outgoing_walk:
  assumes "locally_manifold c m" and "valid_v c m v"
  shows "\<exists>es. outgoing c m v = Some es
           \<and> distinct es
           \<and> set es = outgoing_halfedges c m v
           \<and> length es = card (outgoing_halfedges c m v)
           \<and> left_chain c m es
           \<and> (es \<noteq> [] \<longrightarrow> halfedge_v c m v = Some (hd es) \<and> left c m (last es) = Some (hd es))
           \<and> (isolated c m v = Some True \<longrightarrow> es = [])"
proof -
  from outgoing_walk_aux [OF assms] obtain es where
    "outgoing c m v = Some es" "distinct es" "set es = outgoing_halfedges c m v"
    "length es = card (outgoing_halfedges c m v)" "left_chain c m es"
    "es \<noteq> [] \<longrightarrow> halfedge_v c m v = Some (hd es) \<and> left c m (last es) = Some (hd es)"
    "isolated c m v = Some True \<longrightarrow> es = []"
    by blast
  then show ?thesis by blast
qed

lemma triangle_locally_manifold: "locally_manifold ids32 triangle_mesh"
  by code_simp

lemma erased_locally_manifold: "locally_manifold ids32 erased_mesh"
  by code_simp

lemma triangle_outgoing: "outgoing ids32 triangle_mesh (VertexId 0) = Some [HalfedgeId (-3), HalfedgeId 0]"
  by code_simp


theorem outgoing_walk_witness:
  "locally_manifold ids32 triangle_mesh \<and> valid_v ids32 triangle_mesh (VertexId 0)
   \<and> outgoing ids32 triangle_mesh (VertexId 0) = Some [HalfedgeId (-3), HalfedgeId 0]
   \<and> outgoing_halfedges ids32 triangle_mesh (VertexId 0) = {HalfedgeId (-3), HalfedgeId 0}
   \<and> card (outgoing_halfedges ids32 triangle_mesh (VertexId 0)) = 2
   \<and> left ids32 triangle_mesh (HalfedgeId 0) = Some (HalfedgeId (-3))
   \<and> locally_manifold ids32 erased_mesh \<and> valid_v ids32 erased_mesh (VertexId 0)
   \<and> isolated ids32 erased_mesh (VertexId 0) = Some True
   \<and> outgoing ids32 erased_mesh (VertexId 0) = Some []"
proof -
  have v1: "valid_v ids32 triangle_mesh (VertexId 0)" by (simp add: eval_defs)
  have v2: "valid_v ids32 erased_mesh (VertexId 0)" by (simp add: eval_defs)
  have i2: "isolated ids32 erased_mesh (VertexId 0) = Some True"
    using v2 by (simp add: isolated_def halfedge_v_def id_valid_def)
      (simp add: array_get_def array_valid_def erased_mesh_def ids32_def)
  from outgoing_walk [OF triangle_locally_manifold v1] triangle_outgoing
  have a: "outgoing_halfedges ids32 triangle_mesh (VertexId 0) = {HalfedgeId (-3), HalfedgeId 0}"
    "card (outgoing_halfedges ids32 triangle_mesh (VertexId 0)) = 2"
    "left ids32 triangle_mesh (HalfedgeId 0) = Some (HalfedgeId (-3))"
    by auto
  from outgoing_walk [OF erased_locally_manifold v2] i2
  have b: "outgoing ids32 erased_mesh (VertexId 0) = Some []" by auto
  show ?thesis
    using triangle_locally_manifold erased_locally_manifold v1 v2 i2 triangle_outgoing a b by simp
qed

section \<open>Flipping an edge\<close>


lemma corner_index: "0 \<le> (x::int) \<Longrightarrow> x - 3 * (x div 3) = x mod 3"
  by (simp add: minus_mult_div_eq_mod)

lemma vec_nth_Some: "0 \<le> i \<Longrightarrow> i < 3 \<Longrightarrow> \<exists>w. vec_nth V i = Some w"
  by (cases V) auto


lemma interior_face_slot:
  assumes "valid_e c m e" "0 \<le> e_id e"
  shows "array_valid (faces m) (e_id e div 3)"
  using assms by (simp add: valid_e_def valid_f_def c_div_nonneg split: if_splits)

lemma src_interior:
  assumes "valid_e c m e" "0 \<le> e_id e"
  shows "\<exists>v. src c m e = Some v"
proof -
  have "0 \<le> e_id e mod 3" "e_id e mod 3 < 3" by simp_all
  from vec_nth_Some [OF this, of "vertices (faces m ! nat (e_id e div 3))"]
  show ?thesis
    using assms interior_face_slot [OF assms]
    by (simp add: src_def c_div_nonneg corner_index array_get_def)
qed

lemma next_interior:
  assumes "valid_e c m e" "0 \<le> e_id e"
  shows "\<exists>n. next c m e = Some n \<and> valid_e c m n \<and> 0 \<le> e_id n \<and> e_id n div 3 = e_id e div 3"
proof -
  let ?n = "e_id e + (if e_id e mod 3 = 2 then -2 else 1)"
  have n0: "0 \<le> ?n" using assms(2) by presburger
  have nd: "?n div 3 = e_id e div 3" using assms(2) by presburger
  have "valid_e c m (HalfedgeId ?n)"
    using assms n0 nd by (simp add: valid_e_def c_div_nonneg del: One_nat_def)
  moreover have "next c m e = Some (HalfedgeId ?n)" using assms by (simp add: next_def)
  ultimately show ?thesis using n0 nd by simp
qed


lemma dst_interior:
  assumes "valid_e c m e" "0 \<le> e_id e"
  shows "\<exists>v. dst c m e = Some v"
proof -
  let ?i = "e_id e mod 3"
  have "0 \<le> (if ?i = 2 then 0 else ?i + 1)" "(if ?i = 2 then 0 else ?i + 1) < 3"
    by presburger+
  from vec_nth_Some [OF this, of "vertices (faces m ! nat (e_id e div 3))"]
  show ?thesis
    using assms interior_face_slot [OF assms]
    by (auto simp: dst_def c_div_nonneg corner_index array_get_def Let_def split: if_splits)
qed

lemma opposite_interior:
  assumes "valid_e c m e" "0 \<le> e_id e"
  shows "\<exists>v. opposite c m e = Some v"
proof -
  from next_interior [OF assms] obtain n where n: "next c m e = Some n" "valid_e c m n" "0 \<le> e_id n"
    by blast
  from dst_interior [OF n(2,3)] n(1) assms show ?thesis
    by (auto simp: opposite_def is_boundary_e_def)
qed










lemma find_edge_to_Some:
  assumes "\<forall>e \<in> set es. \<exists>d. dst c m e = Some d"
  shows "\<exists>h. find_edge_to c m v1 es = Some h"
  using assms by (induction es) auto

lemma halfedge_vv_Some:
  assumes "locally_manifold c m" "valid_v c m v0"
  shows "\<exists>h. halfedge_vv c m v0 v1 = Some h"
proof -
  from assms(1) have linked: "halfedges_linked c m" by (simp add: locally_manifold_def)
  from outgoing_walk_aux [OF assms] obtain es where
    es: "outgoing c m v0 = Some es" "set es = outgoing_halfedges c m v0"
    by blast
  have "\<forall>e \<in> set es. \<exists>d. dst c m e = Some d"
  proof
    fix e assume "e \<in> set es"
    with es(2) have "valid_e c m e" by (simp add: outgoing_halfedges_def)
    from linkedD [OF linked this] show "\<exists>d. dst c m e = Some d" by blast
  qed
  from find_edge_to_Some [OF this] es(1) show ?thesis by (simp add: halfedge_vv_def)
qed













section \<open>The Euler characteristic\<close>







lemma tetrahedron_closed: "closed_manifold ids32 tetrahedron"
  by code_simp







section \<open>A refused face changes nothing\<close>

lemma find_edge_to_first:
  assumes "e \<in> set es" "dst c m e = Some b" "\<forall>x \<in> set es. \<exists>d. dst c m x = Some d"
  shows "\<exists>h. find_edge_to c m b es = Some h \<and> h \<in> set es \<and> dst c m h = Some b"
  using assms
proof (induction es)
  case Nil
  then show ?case by simp
next
  case (Cons x xs)
  from Cons.prems(3) obtain d where d: "dst c m x = Some d" by auto
  show ?case
  proof (cases "d = b")
    case True
    with d show ?thesis by simp
  next
    case False
    with d Cons.prems(1,2) have "e \<in> set xs" by auto
    from Cons.IH [OF this Cons.prems(2)] Cons.prems(3) d False show ?thesis by auto
  qed
qed

lemma halfedge_vv_finds:
  assumes man: "locally_manifold c m" and uniq: "edges_unique c m"
    and e: "valid_e c m e" "src c m e = Some a" "dst c m e = Some b" and a: "valid_v c m a"
  shows "halfedge_vv c m a b = Some e"
proof -
  from man have linked: "halfedges_linked c m" by (simp add: locally_manifold_def)
  from outgoing_walk_aux [OF man a] obtain es where
    es: "outgoing c m a = Some es" "set es = outgoing_halfedges c m a"
    by blast
  have ein: "e \<in> set es" using es(2) e(1,2) by (simp add: outgoing_halfedges_def)
  have tot: "\<forall>x \<in> set es. \<exists>d. dst c m x = Some d"
  proof
    fix x assume "x \<in> set es"
    with es(2) have "valid_e c m x" by (simp add: outgoing_halfedges_def)
    from linkedD [OF linked this] show "\<exists>d. dst c m x = Some d" by blast
  qed
  from find_edge_to_first [OF ein e(3) tot] obtain h where
    h: "find_edge_to c m b es = Some h" "h \<in> set es" "dst c m h = Some b"
    by blast
  from h(2) es(2) have hv: "valid_e c m h" "src c m h = Some a"
    by (simp_all add: outgoing_halfedges_def)
  have "h = e"
    using uniq hv h(3) e valid_e_in_all [OF hv(1)] valid_e_in_all [OF e(1)]
    unfolding edges_unique_def by metis
  with h(1) es(1) show ?thesis by (simp add: halfedge_vv_def)
qed

lemma claimed_edge_refused:
  assumes man: "locally_manifold c m" and uniq: "edges_unique c m"
    and inv: "\<not> valid_e c m (HalfedgeId (invalid_id c))"
    and e: "valid_e c m e" "0 \<le> e_id e" "src c m e = Some a" "dst c m e = Some b"
    and a: "valid_v c m a"
  shows "\<exists>h. halfedge_vv c m a b = Some h \<and> edge_claimed c h"
proof -
  have "e_id e \<noteq> invalid_id c"
  proof
    assume "e_id e = invalid_id c"
    then have "HalfedgeId (invalid_id c) = e" by (cases e) simp
    with inv e(1) show False by simp
  qed
  with e(2) have "edge_claimed c e" by (simp add: edge_claimed_def id_valid_def)
  with halfedge_vv_finds [OF man uniq e(1,3,4) a] show ?thesis by simp
qed

text \<open>
  Claim C4. On a locally manifold mesh with unique edges, if one of the three oriented
  edges of the triangle \<open>(v0,v1,v2)\<close> is already an interior halfedge, so that the new
  face would share it with an existing face, \<open>add_face\<close> fails with a structural
  violation and returns the mesh it was given: the counts and the whole structure are
  at their values before the call.
\<close>

theorem add_face_atomic:
  assumes "locally_manifold c m" and "endpoints_valid c m" and "edges_unique c m"
    and "\<not> valid_e c m (HalfedgeId (invalid_id c))"
    and "valid_v c m (vec_x v)" and "valid_v c m (vec_y v)" and "valid_v c m (vec_z v)"
    and "shares_oriented_edge c m v"
  shows "add_face c wire m v = Some (Inl StructuralViolation, m)"
proof -
  obtain v0 v1 v2 where v: "v = Vector3 v0 v1 v2" by (cases v)
  with assms(5-7) have vv: "valid_v c m v0" "valid_v c m v1" "valid_v c m v2" by simp_all
  from halfedge_vv_Some [OF assms(1) vv(1)] obtain e0 where e0: "halfedge_vv c m v0 v1 = Some e0" by blast
  from halfedge_vv_Some [OF assms(1) vv(2)] obtain e1 where e1: "halfedge_vv c m v1 v2 = Some e1" by blast
  from halfedge_vv_Some [OF assms(1) vv(3)] obtain e2 where e2: "halfedge_vv c m v2 v0 = Some e2" by blast
  from assms(8) v obtain e where e: "valid_e c m e" "0 \<le> e_id e"
    "(src c m e = Some v0 \<and> dst c m e = Some v1)
     \<or> (src c m e = Some v1 \<and> dst c m e = Some v2)
     \<or> (src c m e = Some v2 \<and> dst c m e = Some v0)"
    by (auto simp: shares_oriented_edge_def)
  have "edge_claimed c e0 \<or> edge_claimed c e1 \<or> edge_claimed c e2"
    using e(3) claimed_edge_refused [OF assms(1,3,4) e(1,2)] vv e0 e1 e2 by fastforce
  then show ?thesis
    using vv e0 e1 e2 by (simp add: add_face_def v)
qed

lemma triangle_endpoints_valid: "endpoints_valid ids32 triangle_mesh"
  by code_simp

lemma triangle_edges_unique: "edges_unique ids32 triangle_mesh"
  by code_simp

lemma triangle_invalid_unused: "\<not> valid_e ids32 triangle_mesh (HalfedgeId (invalid_id ids32))"
  by code_simp

lemma triangle_shares:
  "shares_oriented_edge ids32 triangle_mesh (Vector3 (VertexId 0) (VertexId 1) (VertexId 2))"
  by code_simp

lemma triangle_vertices_valid:
  "valid_v ids32 triangle_mesh (vec_x (Vector3 (VertexId 0) (VertexId 1) (VertexId 2)))"
  "valid_v ids32 triangle_mesh (vec_y (Vector3 (VertexId 0) (VertexId 1) (VertexId 2)))"
  "valid_v ids32 triangle_mesh (vec_z (Vector3 (VertexId 0) (VertexId 1) (VertexId 2)))"
  by code_simp+

theorem add_face_atomic_witness:
  "locally_manifold ids32 triangle_mesh \<and> endpoints_valid ids32 triangle_mesh
   \<and> edges_unique ids32 triangle_mesh
   \<and> shares_oriented_edge ids32 triangle_mesh (Vector3 (VertexId 0) (VertexId 1) (VertexId 2))
   \<and> (\<forall>wire. add_face ids32 wire triangle_mesh (Vector3 (VertexId 0) (VertexId 1) (VertexId 2))
         = Some (Inl StructuralViolation, triangle_mesh))
   \<and> n_vertices triangle_mesh = 3 \<and> n_faces triangle_mesh = 1"
  using add_face_atomic [OF triangle_locally_manifold triangle_endpoints_valid triangle_edges_unique
      triangle_invalid_unused triangle_vertices_valid triangle_shares]
    triangle_locally_manifold triangle_endpoints_valid triangle_edges_unique triangle_shares
  by (simp add: triangle_mesh_def)

section \<open>Compaction is idempotent\<close>

lemma compact_map: "compact (map P xs) xs = filter P xs"
  by (induction xs) (simp_all add: compact_def)

lemma length_compact_le: "length (compact ls xs) \<le> length (filter id ls)"
proof (induction ls arbitrary: xs)
  case Nil
  show ?case by (simp add: compact_def)
next
  case (Cons l ls)
  show ?case
  proof (cases xs)
    case Nil
    then show ?thesis by (simp add: compact_def)
  next
    case (Cons x xs')
    with Cons.IH [of xs'] show ?thesis by (simp add: compact_def)
  qed
qed

lemma compact_all_live: "compact (replicate n True) xs = take n xs"
proof (induction n arbitrary: xs)
  case 0
  show ?case by (simp add: compact_def)
next
  case (Suc n)
  show ?case
  proof (cases xs)
    case Nil
    then show ?thesis by (simp add: compact_def)
  next
    case (Cons x xs')
    with Suc [of xs'] show ?thesis by (simp add: compact_def)
  qed
qed

lemma all_live_flags:
  assumes "\<forall>x \<in> set xs. P x"
  shows "map P xs = replicate (length xs) True"
  using assms by (induction xs) simp_all

lemma those_map_iff:
  "those (map f xs) = Some ys \<longleftrightarrow> list_all2 (\<lambda>x y. f x = Some y) xs ys"
proof (induction xs arbitrary: ys)
  case Nil
  show ?case by auto
next
  case (Cons x xs)
  show ?case
  proof (cases "f x")
    case None
    then show ?thesis by (auto simp: list_all2_Cons1)
  next
    case (Some y)
    then show ?thesis using Cons.IH by (cases "those (map f xs)") (auto simp: list_all2_Cons1)
  qed
qed

lemma length_old_to_new: "length (old_to_new k ls) = length ls"
  by (induction ls arbitrary: k) simp_all

lemma old_to_new_bound:
  assumes "i < length ls" "0 \<le> old_to_new k ls ! i" "0 \<le> k"
  shows "k \<le> old_to_new k ls ! i \<and> old_to_new k ls ! i < k + int (length (filter id ls))"
  using assms
proof (induction ls arbitrary: k i)
  case Nil
  then show ?case by simp
next
  case (Cons l ls)
  show ?case
  proof (cases i)
    case 0
    with Cons.prems show ?thesis by (cases l) simp_all
  next
    case (Suc j)
    show ?thesis
    proof (cases l)
      case True
      with Suc Cons.prems Cons.IH [of j "k + 1"] show ?thesis by simp
    next
      case False
      with Suc Cons.prems Cons.IH [of j k] show ?thesis by simp
    qed
  qed
qed

lemma old_to_new_all_live:
  "old_to_new k (replicate n True) = map (\<lambda>i. k + int i) [0..<n]"
proof (induction n arbitrary: k)
  case 0
  show ?case by simp
next
  case (Suc n)
  have "map (\<lambda>i. k + int i) [0..<Suc n] = k # map (\<lambda>i. k + int i) (map Suc [0..<n])"
    by (simp only: upt_conv_Cons [of 0 "Suc n"] map_Suc_upt) simp
  also have "\<dots> = k # map (\<lambda>i. k + 1 + int i) [0..<n]"
    by (simp add: comp_def add.assoc add.commute)
  finally show ?case using Suc [of "k + 1"] by simp
qed

lemma old_to_new_identity: "old_to_new 0 (replicate n True) = identity_permutation n"
  by (simp add: old_to_new_all_live identity_permutation_def)

lemma array_get_identity:
  "array_get (identity_permutation n) k = (if 0 \<le> k \<and> k < int n then Some k else None)"
  by (auto simp: array_get_def array_valid_def identity_permutation_def)

lemma permute_v_result:
  assumes "permute_v (old_to_new 0 ls) v = Some v'"
  shows "vertex_ref_ok (length (filter id ls)) v'"
proof -
  from assms obtain k where k: "array_get (old_to_new 0 ls) (v_id v) = Some k" "0 \<le> k" "v' = VertexId k"
    by (auto simp: permute_v_def split: Option.bind_splits if_splits)
  from k(1) have i: "nat (v_id v) < length ls" "old_to_new 0 ls ! nat (v_id v) = k"
    by (auto simp: array_get_def array_valid_def length_old_to_new split: if_splits)
  from old_to_new_bound [OF i(1), of 0] i(2) k(2) have "k < int (length (filter id ls))" by simp
  with k(2,3) show ?thesis by (simp add: vertex_ref_ok_def)
qed

lemma permute_v_identity:
  assumes "vertex_ref_ok nv v"
  shows "permute_v (identity_permutation nv) v = Some v"
  using assms by (cases v) (simp add: permute_v_def vertex_ref_ok_def array_get_identity)

lemma permute_e_result:
  assumes "permute_e c (old_to_new 0 lf) (old_to_new 0 lb) e = Some e'"
  shows "halfedge_ref_ok c (length (filter id lf)) (length (filter id lb)) e'"
proof (cases "id_valid c (e_id e)")
  case False
  with assms show ?thesis by (simp add: permute_e_def halfedge_ref_ok_def)
next
  case True
  show ?thesis
  proof (cases "0 \<le> e_id e")
    case nonneg: True
    let ?f = "e_id e div 3"
    from assms True nonneg obtain k where
      k: "array_get (old_to_new 0 lf) ?f = Some k" "0 \<le> k" "e' = HalfedgeId (3 * k + (e_id e - 3 * ?f))"
      by (auto simp: permute_e_def c_div_nonneg Let_def split: Option.bind_splits if_splits)
    from k(1) have i: "nat ?f < length lf" "old_to_new 0 lf ! nat ?f = k"
      by (auto simp: array_get_def array_valid_def length_old_to_new split: if_splits)
    from old_to_new_bound [OF i(1), of 0] i(2) k(2) have "k < int (length (filter id lf))" by simp
    moreover have "0 \<le> e_id e - 3 * ?f" "e_id e - 3 * ?f < 3" using nonneg by presburger+
    ultimately have "0 \<le> e_id e'" "e_id e' < 3 * int (length (filter id lf))"
      using k(2,3) by simp_all
    then show ?thesis by (simp add: halfedge_ref_ok_def)
  next
    case neg: False
    from assms True neg obtain k where
      k: "array_get (old_to_new 0 lb) (-1 - e_id e) = Some k" "0 \<le> k" "e' = HalfedgeId (-1 - k)"
      by (auto simp: permute_e_def split: Option.bind_splits if_splits)
    from k(1) have i: "nat (-1 - e_id e) < length lb" "old_to_new 0 lb ! nat (-1 - e_id e) = k"
      by (auto simp: array_get_def array_valid_def length_old_to_new split: if_splits)
    from old_to_new_bound [OF i(1), of 0] i(2) k(2) have "k < int (length (filter id lb))" by simp
    with k(2,3) show ?thesis by (simp add: halfedge_ref_ok_def)
  qed
qed

lemma permute_e_identity:
  assumes "halfedge_ref_ok c nf nb e"
  shows "permute_e c (identity_permutation nf) (identity_permutation nb) e = Some e"
proof (cases "id_valid c (e_id e)")
  case False
  then show ?thesis by (simp add: permute_e_def)
next
  case True
  with assms have r: "- int nb \<le> e_id e" "e_id e < 3 * int nf" by (simp_all add: halfedge_ref_ok_def)
  show ?thesis
  proof (cases "0 \<le> e_id e")
    case nonneg: True
    have "0 \<le> e_id e div 3" "e_id e div 3 < int nf" using nonneg r(2) by presburger+
    moreover have "3 * (e_id e div 3) + (e_id e - 3 * (e_id e div 3)) = e_id e" by simp
    ultimately show ?thesis
      using True nonneg by (cases e) (simp add: permute_e_def c_div_nonneg Let_def array_get_identity)
  next
    case neg: False
    with r(1) have "0 \<le> -1 - e_id e" "-1 - e_id e < int nb" by simp_all
    then show ?thesis
      using True neg by (cases e) (simp add: permute_e_def array_get_identity)
  qed
qed

lemma permute_e_not_erased:
  assumes "permute_e c (old_to_new 0 (live_faces c m)) (old_to_new 0 (live_boundaries c m)) e = Some e'"
    and "e_id e \<noteq> erased_id c" and "sentinel_unused c m"
  shows "e_id e' \<noteq> erased_id c"
proof (cases "id_valid c (e_id e)")
  case False
  with assms(1,2) show ?thesis by (simp add: permute_e_def)
next
  case True
  from permute_e_result [OF assms(1)]
  have "\<not> id_valid c (e_id e') \<or> (- int (length (filter id (live_boundaries c m))) \<le> e_id e'
     \<and> e_id e' < 3 * int (length (filter id (live_faces c m))))"
    by (simp add: halfedge_ref_ok_def)
  moreover have "length (filter id (live_boundaries c m)) \<le> length (boundaries m)"
    using length_filter_le [of id "live_boundaries c m"] by (simp add: live_boundaries_def)
  moreover have "length (filter id (live_faces c m)) \<le> length (faces m)"
    using length_filter_le [of id "live_faces c m"] by (simp add: live_faces_def)
  ultimately show ?thesis
    using assms(3) by (auto simp: sentinel_unused_def id_valid_def)
qed

lemma permute_v_not_erased:
  assumes "permute_v (old_to_new 0 (live_vertices c m)) v = Some v'" and "sentinel_unused c m"
  shows "v_id v' \<noteq> erased_id c"
proof -
  from permute_v_result [OF assms(1)]
  have "0 \<le> v_id v'" "v_id v' < int (length (filter id (live_vertices c m)))"
    by (simp_all add: vertex_ref_ok_def)
  moreover have "length (filter id (live_vertices c m)) \<le> length (vertex_to_edge m)"
    using length_filter_le [of id "live_vertices c m"] by (simp add: live_vertices_def)
  ultimately show ?thesis using assms(2) by (auto simp: sentinel_unused_def)
qed

lemma permute_face_result:
  assumes "permute_face c (old_to_new 0 lv) (old_to_new 0 lf) (old_to_new 0 lb) I = Some I'"
  shows "face_refs_ok c (length (filter id lv)) (length (filter id lf)) (length (filter id lb)) I'"
  using assms
  by (auto simp: permute_face_def face_refs_ok_def split: Option.bind_splits
      intro: permute_v_result permute_e_result)

lemma permute_face_identity:
  assumes "face_refs_ok c nv nf nb I"
  shows "permute_face c (identity_permutation nv) (identity_permutation nf) (identity_permutation nb) I
           = Some I"
proof -
  obtain vs ns where I: "I = \<lparr>vertices = vs, neighbors = ns\<rparr>" by (cases I) simp
  obtain a b d where vs: "vs = Vector3 a b d" by (cases vs)
  obtain n0 n1 n2 where ns: "ns = Vector3 n0 n1 n2" by (cases ns)
  from assms show ?thesis
    by (simp add: I vs ns permute_face_def face_refs_ok_def permute_v_identity permute_e_identity)
qed

lemma permute_boundary_result:
  assumes "permute_boundary c (old_to_new 0 lv) (old_to_new 0 lf) (old_to_new 0 lb) B = Some B'"
  shows "boundary_refs_ok c (length (filter id lv)) (length (filter id lf)) (length (filter id lb)) B'"
  using assms
  by (auto simp: permute_boundary_def boundary_refs_ok_def split: Option.bind_splits
      intro: permute_v_result permute_e_result)

lemma permute_boundary_identity:
  assumes "boundary_refs_ok c nv nf nb B"
  shows "permute_boundary c (identity_permutation nv) (identity_permutation nf)
           (identity_permutation nb) B = Some B"
  using assms
  by (cases B) (simp add: permute_boundary_def boundary_refs_ok_def permute_v_identity permute_e_identity)

lemma permute_face_not_erased:
  assumes "permute_face c (old_to_new 0 (live_vertices c m)) fp bp I = Some I'" "sentinel_unused c m"
  shows "v_id (vec_x (vertices I')) \<noteq> erased_id c"
proof -
  from assms(1) obtain a where "permute_v (old_to_new 0 (live_vertices c m)) (vec_x (vertices I)) = Some a"
    "vec_x (vertices I') = a"
    by (auto simp: permute_face_def split: Option.bind_splits)
  with permute_v_not_erased [OF _ assms(2)] show ?thesis by auto
qed

lemma permute_boundary_not_erased:
  assumes "permute_boundary c (old_to_new 0 (live_vertices c m)) fp bp B = Some B'" "sentinel_unused c m"
  shows "v_id (b_src B') \<noteq> erased_id c"
proof -
  from assms(1) obtain a where "permute_v (old_to_new 0 (live_vertices c m)) (b_src B) = Some a"
    "b_src B' = a"
    by (auto simp: permute_boundary_def split: Option.bind_splits)
  with permute_v_not_erased [OF _ assms(2)] show ?thesis by auto
qed

lemma list_all2_image:
  assumes "list_all2 R xs ys" "y \<in> set ys"
  shows "\<exists>x \<in> set xs. R x y"
proof -
  from assms(2) obtain i where i: "i < length ys" "ys ! i = y" by (auto simp: in_set_conv_nth)
  with assms(1) have "R (xs ! i) y" "i < length xs" by (auto simp: list_all2_conv_all_nth)
  then show ?thesis using nth_mem by blast
qed

lemma those_map_same:
  assumes "\<forall>x \<in> set xs. f x = Some x"
  shows "those (map f xs) = Some xs"
  unfolding those_map_iff using assms by (simp add: list.rel_refl_strong)

lemma length_live: "length (filter id (map P xs)) = length (filter P xs)"
  by (induction xs) simp_all

lemma compact_field_all_live:
  assumes "length (flat a) \<le> n"
  shows "compact_field (replicate n True) a = a"
  using assms by (simp add: compact_field_def compact_all_live)

lemma triple_flags_all_live:
  "concat (map (\<lambda>l. [l, l, l]) (replicate n True)) = replicate (3 * n) True"
proof (induction n)
  case 0
  show ?case by simp
next
  case (Suc n)
  have "replicate (3 * Suc n) True = True # True # True # replicate (3 * n) True"
    by (simp add: numeral_3_eq_3)
  with Suc show ?case by simp
qed

lemma triple_flags_live: "length (filter id (concat (map (\<lambda>l. [l, l, l]) ls))) = 3 * length (filter id ls)"
  by (induction ls) simp_all


lemma collect_garbage_again:
  assumes cg: "collect_garbage c m = Some (p, m1)" and su: "sentinel_unused c m"
  shows "collect_garbage c m1 =
           Some (Vector3 (identity_permutation (length (vertex_to_edge m1)))
                         (identity_permutation (length (faces m1)))
                         (identity_permutation (length (boundaries m1))), m1)"
proof -
  let ?lv = "live_vertices c m" and ?lf = "live_faces c m" and ?lb = "live_boundaries c m"
  let ?vp = "old_to_new 0 ?lv" and ?fp = "old_to_new 0 ?lf" and ?bp = "old_to_new 0 ?lb"
  let ?nv = "length (filter id ?lv)" and ?nf = "length (filter id ?lf)" and ?nb = "length (filter id ?lb)"
  let ?hf = "concat (map (\<lambda>l. [l, l, l]) ?lf)"
  from cg obtain fs ve bs where
    fs: "those (map (permute_face c ?vp ?fp ?bp) (compact ?lf (faces m))) = Some fs"
    and ve: "those (map (permute_e c ?fp ?bp) (compact ?lv (vertex_to_edge m))) = Some ve"
    and bs: "those (map (permute_boundary c ?vp ?fp ?bp) (compact ?lb (boundaries m))) = Some bs"
    and m1: "m1 = m\<lparr>faces := fs, vertex_to_edge := ve, boundaries := bs,
                      erased_boundaries := HalfedgeId (invalid_id c),
                      vertex_fields := map (compact_field ?lv) (vertex_fields m),
                      face_fields := map (compact_field ?lf) (face_fields m),
                      halfedge_fields := map (compact_field ?hf) (halfedge_fields m)\<rparr>"
    by (auto simp: collect_garbage_def Let_def split: Option.bind_splits)
  have cf: "compact ?lf (faces m) = filter (\<lambda>I. v_id (vec_x (vertices I)) \<noteq> erased_id c) (faces m)"
    by (simp add: live_faces_def compact_map)
  have cv: "compact ?lv (vertex_to_edge m) = filter (\<lambda>e. e_id e \<noteq> erased_id c) (vertex_to_edge m)"
    by (simp add: live_vertices_def compact_map)
  have cb: "compact ?lb (boundaries m) = filter (\<lambda>B. v_id (b_src B) \<noteq> erased_id c) (boundaries m)"
    by (simp add: live_boundaries_def compact_map)
  from fs have rf: "list_all2 (\<lambda>I I'. permute_face c ?vp ?fp ?bp I = Some I')
      (filter (\<lambda>I. v_id (vec_x (vertices I)) \<noteq> erased_id c) (faces m)) fs"
    by (simp add: those_map_iff cf)
  from ve have rv: "list_all2 (\<lambda>e e'. permute_e c ?fp ?bp e = Some e')
      (filter (\<lambda>e. e_id e \<noteq> erased_id c) (vertex_to_edge m)) ve"
    by (simp add: those_map_iff cv)
  from bs have rb: "list_all2 (\<lambda>B B'. permute_boundary c ?vp ?fp ?bp B = Some B')
      (filter (\<lambda>B. v_id (b_src B) \<noteq> erased_id c) (boundaries m)) bs"
    by (simp add: those_map_iff cb)
  have nf: "length fs = ?nf"
    using list_all2_lengthD [OF rf] by (simp add: live_faces_def length_live)
  have nv: "length ve = ?nv"
    using list_all2_lengthD [OF rv] by (simp add: live_vertices_def length_live)
  have nb: "length bs = ?nb"
    using list_all2_lengthD [OF rb] by (simp add: live_boundaries_def length_live)
  have okf: "\<forall>I' \<in> set fs. face_refs_ok c (length ve) (length fs) (length bs) I'
      \<and> v_id (vec_x (vertices I')) \<noteq> erased_id c"
  proof
    fix I' assume "I' \<in> set fs"
    from list_all2_image [OF rf this] obtain I where "permute_face c ?vp ?fp ?bp I = Some I'" by blast
    from permute_face_result [OF this] permute_face_not_erased [OF this su]
    show "face_refs_ok c (length ve) (length fs) (length bs) I'
      \<and> v_id (vec_x (vertices I')) \<noteq> erased_id c"
      by (simp add: nf nv nb)
  qed
  have okv: "\<forall>e' \<in> set ve. halfedge_ref_ok c (length fs) (length bs) e' \<and> e_id e' \<noteq> erased_id c"
  proof
    fix e' assume "e' \<in> set ve"
    from list_all2_image [OF rv this] obtain e where
      e: "e_id e \<noteq> erased_id c" "permute_e c ?fp ?bp e = Some e'" by auto
    from permute_e_result [OF e(2)] permute_e_not_erased [OF e(2,1) su]
    show "halfedge_ref_ok c (length fs) (length bs) e' \<and> e_id e' \<noteq> erased_id c"
      by (simp add: nf nb)
  qed
  have okb: "\<forall>B' \<in> set bs. boundary_refs_ok c (length ve) (length fs) (length bs) B'
      \<and> v_id (b_src B') \<noteq> erased_id c"
  proof
    fix B' assume "B' \<in> set bs"
    from list_all2_image [OF rb this] obtain B where "permute_boundary c ?vp ?fp ?bp B = Some B'" by blast
    from permute_boundary_result [OF this] permute_boundary_not_erased [OF this su]
    show "boundary_refs_ok c (length ve) (length fs) (length bs) B'
      \<and> v_id (b_src B') \<noteq> erased_id c"
      by (simp add: nf nv nb)
  qed
  have lf1: "live_faces c m1 = replicate (length fs) True"
    using okf by (simp add: live_faces_def m1 all_live_flags)
  have lv1: "live_vertices c m1 = replicate (length ve) True"
    using okv by (simp add: live_vertices_def m1 all_live_flags)
  have lb1: "live_boundaries c m1 = replicate (length bs) True"
    using okb by (simp add: live_boundaries_def m1 all_live_flags)
  have a1: "those (map (permute_face c (identity_permutation (length ve))
      (identity_permutation (length fs)) (identity_permutation (length bs))) fs) = Some fs"
    using okf by (intro those_map_same) (simp add: permute_face_identity)
  have a2: "those (map (permute_e c (identity_permutation (length fs))
      (identity_permutation (length bs))) ve) = Some ve"
    using okv by (intro those_map_same) (simp add: permute_e_identity)
  have a3: "those (map (permute_boundary c (identity_permutation (length ve))
      (identity_permutation (length fs)) (identity_permutation (length bs))) bs) = Some bs"
    using okb by (intro those_map_same) (simp add: permute_boundary_identity)
  have f1: "map (compact_field (replicate (length ve) True)) (map (compact_field ?lv) (vertex_fields m))
      = map (compact_field ?lv) (vertex_fields m)"
  proof -
    have "\<forall>a \<in> set (map (compact_field ?lv) (vertex_fields m)). length (flat a) \<le> length ve"
      using length_compact_le [of ?lv] by (auto simp: compact_field_def nv)
    then show ?thesis by (simp add: compact_field_all_live map_idI)
  qed
  have f2: "map (compact_field (replicate (length fs) True)) (map (compact_field ?lf) (face_fields m))
      = map (compact_field ?lf) (face_fields m)"
  proof -
    have "\<forall>a \<in> set (map (compact_field ?lf) (face_fields m)). length (flat a) \<le> length fs"
      using length_compact_le [of ?lf] by (auto simp: compact_field_def nf)
    then show ?thesis by (simp add: compact_field_all_live map_idI)
  qed
  have f3: "map (compact_field (replicate (3 * length fs) True)) (map (compact_field ?hf) (halfedge_fields m))
      = map (compact_field ?hf) (halfedge_fields m)"
  proof -
    have "\<forall>a \<in> set (map (compact_field ?hf) (halfedge_fields m)). length (flat a) \<le> 3 * length fs"
      using length_compact_le [of ?hf] by (auto simp: compact_field_def nf triple_flags_live)
    then show ?thesis by (simp add: compact_field_all_live map_idI)
  qed
  have take: "take (length fs) fs = fs" "take (length ve) ve = ve" "take (length bs) bs = bs"
    by simp_all
  have sel: "faces m1 = fs" "vertex_to_edge m1 = ve" "boundaries m1 = bs"
    "erased_boundaries m1 = HalfedgeId (invalid_id c)"
    "vertex_fields m1 = map (compact_field ?lv) (vertex_fields m)"
    "face_fields m1 = map (compact_field ?lf) (face_fields m)"
    "halfedge_fields m1 = map (compact_field ?hf) (halfedge_fields m)"
    by (simp_all add: m1)
  have same: "m1\<lparr>faces := fs, vertex_to_edge := ve, boundaries := bs,
                 erased_boundaries := HalfedgeId (invalid_id c),
                 vertex_fields := map (compact_field ?lv) (vertex_fields m),
                 face_fields := map (compact_field ?lf) (face_fields m),
                 halfedge_fields := map (compact_field ?hf) (halfedge_fields m)\<rparr> = m1"
    by (simp add: m1)
  show ?thesis
    unfolding collect_garbage_def Let_def lf1 lv1 lb1 old_to_new_identity compact_all_live
      triple_flags_all_live sel take a1 a2 a3 f1 f2 f3
    by (simp add: same)
qed

lemma old_to_new_live:
  assumes "i < length ls" "ls ! i" "0 \<le> k"
  shows "0 \<le> old_to_new k ls ! i"
  using assms
proof (induction ls arbitrary: k i)
  case Nil
  then show ?case by simp
next
  case (Cons l ls)
  show ?case
  proof (cases i)
    case 0
    with Cons.prems show ?thesis by simp
  next
    case (Suc j)
    with Cons.prems Cons.IH [of j "k + 1"] Cons.IH [of j k] show ?thesis by (cases l) simp_all
  qed
qed

lemma array_get_old_to_new_live:
  assumes "array_valid xs i" "P (xs ! nat i)"
  shows "\<exists>k. array_get (old_to_new 0 (map P xs)) i = Some k \<and> 0 \<le> k"
proof -
  from assms(1) have i: "nat i < length (map P xs)" "0 \<le> i" by (auto simp: array_valid_def)
  with assms(2) have "0 \<le> old_to_new 0 (map P xs) ! nat i"
    by (intro old_to_new_live) simp_all
  moreover have "array_valid (old_to_new 0 (map P xs)) i"
    using assms(1) by (simp add: array_valid_def length_old_to_new)
  ultimately show ?thesis by (simp add: array_get_def)
qed

lemma permute_v_live:
  assumes "valid_v c m v"
  shows "\<exists>v'. permute_v (old_to_new 0 (live_vertices c m)) v = Some v'"
proof -
  from assms have "array_valid (vertex_to_edge m) (v_id v)"
    "e_id (vertex_to_edge m ! nat (v_id v)) \<noteq> erased_id c"
    by (auto simp: valid_v_def erased_v_def array_get_def split: if_splits)
  from array_get_old_to_new_live [of "vertex_to_edge m" "v_id v" "\<lambda>e. e_id e \<noteq> erased_id c", OF this]
  show ?thesis by (auto simp: permute_v_def live_vertices_def)
qed

lemma permute_e_live:
  assumes "halfedge_ref_live c m e"
  shows "\<exists>e'. permute_e c (old_to_new 0 (live_faces c m)) (old_to_new 0 (live_boundaries c m)) e = Some e'"
proof (cases "id_valid c (e_id e)")
  case False
  then show ?thesis by (simp add: permute_e_def)
next
  case True
  with assms have v: "valid_e c m e" by (simp add: halfedge_ref_live_def)
  show ?thesis
  proof (cases "0 \<le> e_id e")
    case nonneg: True
    with v have "array_valid (faces m) (e_id e div 3)"
      "v_id (vec_x (vertices (faces m ! nat (e_id e div 3)))) \<noteq> erased_id c"
      by (auto simp: valid_e_def valid_f_def erased_f_def array_get_def c_div_nonneg split: if_splits)
    from array_get_old_to_new_live [of "faces m" "e_id e div 3"
        "\<lambda>I. v_id (vec_x (vertices I)) \<noteq> erased_id c", OF this]
    show ?thesis using True nonneg by (auto simp: permute_e_def live_faces_def c_div_nonneg Let_def)
  next
    case neg: False
    with v have "array_valid (boundaries m) (-1 - e_id e)"
      "v_id (b_src (boundaries m ! nat (-1 - e_id e))) \<noteq> erased_id c"
      by (auto simp: valid_e_def array_get_def split: if_splits)
    from array_get_old_to_new_live [of "boundaries m" "-1 - e_id e"
        "\<lambda>B. v_id (b_src B) \<noteq> erased_id c", OF this]
    show ?thesis using True neg by (auto simp: permute_e_def live_boundaries_def)
  qed
qed

lemma those_map_total:
  assumes "\<forall>x \<in> set xs. \<exists>y. f x = Some y"
  shows "\<exists>ys. those (map f xs) = Some ys"
  using assms by (induction xs) auto

lemma collect_garbage_returns:
  assumes "refs_live c m"
  shows "\<exists>p m1. collect_garbage c m = Some (p, m1)"
proof -
  let ?vp = "old_to_new 0 (live_vertices c m)" and ?fp = "old_to_new 0 (live_faces c m)"
    and ?bp = "old_to_new 0 (live_boundaries c m)"
  have "\<forall>I \<in> set (compact (live_faces c m) (faces m)). \<exists>I'. permute_face c ?vp ?fp ?bp I = Some I'"
  proof
    fix I assume "I \<in> set (compact (live_faces c m) (faces m))"
    then have I: "I \<in> set (faces m)" "v_id (vec_x (vertices I)) \<noteq> erased_id c"
      by (simp_all add: live_faces_def compact_map)
    with assms have r: "valid_v c m (vec_x (vertices I))" "valid_v c m (vec_y (vertices I))"
      "valid_v c m (vec_z (vertices I))"
      "halfedge_ref_live c m (vec_x (neighbors I))" "halfedge_ref_live c m (vec_y (neighbors I))"
      "halfedge_ref_live c m (vec_z (neighbors I))"
      unfolding refs_live_def by blast+
    from permute_v_live [OF r(1)] permute_v_live [OF r(2)] permute_v_live [OF r(3)]
      permute_e_live [OF r(4)] permute_e_live [OF r(5)] permute_e_live [OF r(6)]
    show "\<exists>I'. permute_face c ?vp ?fp ?bp I = Some I'"
      by (auto simp: permute_face_def)
  qed
  from those_map_total [OF this] obtain fs where
    fs: "those (map (permute_face c ?vp ?fp ?bp) (compact (live_faces c m) (faces m))) = Some fs"
    by blast
  have "\<forall>e \<in> set (compact (live_vertices c m) (vertex_to_edge m)). \<exists>e'. permute_e c ?fp ?bp e = Some e'"
  proof
    fix e assume "e \<in> set (compact (live_vertices c m) (vertex_to_edge m))"
    then have "e \<in> set (vertex_to_edge m)" "e_id e \<noteq> erased_id c"
      by (simp_all add: live_vertices_def compact_map)
    with assms have "halfedge_ref_live c m e" unfolding refs_live_def by blast
    from permute_e_live [OF this] show "\<exists>e'. permute_e c ?fp ?bp e = Some e'" .
  qed
  from those_map_total [OF this] obtain ve where
    ve: "those (map (permute_e c ?fp ?bp) (compact (live_vertices c m) (vertex_to_edge m))) = Some ve"
    by blast
  have "\<forall>B \<in> set (compact (live_boundaries c m) (boundaries m)).
      \<exists>B'. permute_boundary c ?vp ?fp ?bp B = Some B'"
  proof
    fix B assume "B \<in> set (compact (live_boundaries c m) (boundaries m))"
    then have B: "B \<in> set (boundaries m)" "v_id (b_src B) \<noteq> erased_id c"
      by (simp_all add: live_boundaries_def compact_map)
    with assms have r: "halfedge_ref_live c m (b_prev B)" "halfedge_ref_live c m (b_next B)"
      "halfedge_ref_live c m (b_reverse B)" "valid_v c m (b_src B)"
      unfolding refs_live_def by blast+
    from permute_e_live [OF r(1)] permute_e_live [OF r(2)] permute_e_live [OF r(3)]
      permute_v_live [OF r(4)]
    show "\<exists>B'. permute_boundary c ?vp ?fp ?bp B = Some B'"
      by (auto simp: permute_boundary_def)
  qed
  from those_map_total [OF this] obtain bs where
    bs: "those (map (permute_boundary c ?vp ?fp ?bp) (compact (live_boundaries c m) (boundaries m))) = Some bs"
    by blast
  show ?thesis by (simp add: collect_garbage_def Let_def fs ve bs)
qed

text \<open>
  Claim C6. On a structure whose live slots refer to live slots, \<open>collect_garbage\<close>
  returns, and a second call right after it returns the identity permutations for
  vertices, faces and boundary halfedges and the very structure it was given: arrays,
  counts, free list and fields are unchanged.
\<close>

theorem collect_garbage_idempotent:
  assumes "refs_live c m" and "sentinel_unused c m"
  shows "\<exists>p m1. collect_garbage c m = Some (p, m1)
      \<and> collect_garbage c m1 =
          Some (Vector3 (identity_permutation (length (vertex_to_edge m1)))
                        (identity_permutation (length (faces m1)))
                        (identity_permutation (length (boundaries m1))), m1)"
proof -
  from collect_garbage_returns [OF assms(1)] obtain p m1 where
    cg: "collect_garbage c m = Some (p, m1)" by blast
  from collect_garbage_again [OF cg assms(2)] cg show ?thesis by blast
qed

lemma square_minus_face_refs_live: "refs_live ids32 square_minus_face"
  by code_simp

lemma square_minus_face_sentinel: "sentinel_unused ids32 square_minus_face"
  by code_simp

lemma square_minus_face_collect:
  "map_option fst (collect_garbage ids32 square_minus_face)
     = Some (Vector3 [0, 1, 2, 3] [0, -1] [0, 1, -1, -1, 2])"
  by code_simp

theorem collect_garbage_idempotent_witness:
  "refs_live ids32 square_minus_face \<and> sentinel_unused ids32 square_minus_face
   \<and> (\<exists>m1. collect_garbage ids32 square_minus_face
              = Some (Vector3 [0, 1, 2, 3] [0, -1] [0, 1, -1, -1, 2], m1)
        \<and> collect_garbage ids32 m1
              = Some (Vector3 (identity_permutation (length (vertex_to_edge m1)))
                   (identity_permutation (length (faces m1)))
                   (identity_permutation (length (boundaries m1))), m1))"
proof -
  from collect_garbage_idempotent [OF square_minus_face_refs_live square_minus_face_sentinel]
  obtain p m1 where r: "collect_garbage ids32 square_minus_face = Some (p, m1)"
    "collect_garbage ids32 m1 =
          Some (Vector3 (identity_permutation (length (vertex_to_edge m1)))
                        (identity_permutation (length (faces m1)))
                        (identity_permutation (length (boundaries m1))), m1)"
    by blast
  from r(1) square_minus_face_collect have "p = Vector3 [0, 1, 2, 3] [0, -1] [0, 1, -1, -1, 2]"
    by simp
  with r square_minus_face_refs_live square_minus_face_sentinel show ?thesis by blast
qed

end
